theory Spec2Isabelle
  imports Main "HOL-Library.Sublist"
begin

section \<open>Text: characters and the string operations of the checker\<close>

text \<open>
  A line is a \<^typ>\<open>string\<close>; every \<^typ>\<open>char\<close> stands for one character of the
  Python \<open>str\<close> with code point \<open>of_char c\<close> (0 to 255), so \<open>length\<close> is Python's
  \<open>len\<close> on such text. The classes below are Python's on that range.
\<close>

definition ord :: "char \<Rightarrow> nat" where
  "ord c = of_char c"

definition in_range :: "char \<Rightarrow> char \<Rightarrow> char \<Rightarrow> bool" where
  "in_range lo hi c = (ord lo \<le> ord c \<and> ord c \<le> ord hi)"

definition isspace :: "char \<Rightarrow> bool" where
  \<comment> \<open>\<open>str.isspace\<close>, the set that \<open>strip\<close>, \<open>rstrip\<close> and the pattern \<open>\s\<close> use\<close>
  "isspace c = (ord c \<in> {9, 10, 11, 12, 13, 28, 29, 30, 31, 32, 133, 160})"

definition isword :: "char \<Rightarrow> bool" where
  \<comment> \<open>the pattern class \<open>\w\<close>: alphanumeric or underscore\<close>
  "isword c = (in_range CHR ''0'' CHR ''9'' c \<or> in_range CHR ''A'' CHR ''Z'' c
     \<or> c = CHR ''_'' \<or> in_range CHR ''a'' CHR ''z'' c
     \<or> ord c \<in> {170, 178, 179, 181, 185, 186, 188, 189, 190}
     \<or> (192 \<le> ord c \<and> ord c \<noteq> 215 \<and> ord c \<noteq> 247))"

definition lstrip :: "string \<Rightarrow> string" where
  "lstrip s = dropWhile isspace s"

definition rstrip :: "string \<Rightarrow> string" where
  "rstrip s = rev (dropWhile isspace (rev s))"

definition strip :: "string \<Rightarrow> string" where
  "strip s = rstrip (lstrip s)"

definition startswith :: "string \<Rightarrow> string \<Rightarrow> bool" where
  "startswith s p = prefix p s"

fun py_in :: "string \<Rightarrow> string \<Rightarrow> bool" where
  \<comment> \<open>\<open>sub in s\<close>\<close>
  "py_in sub [] = (sub = [])"
| "py_in sub (c # cs) = (prefix sub (c # cs) \<or> py_in sub cs)"

definition count_char :: "string \<Rightarrow> char \<Rightarrow> int" where
  \<comment> \<open>\<open>s.count(c)\<close> for a one-character \<open>c\<close>\<close>
  "count_char s c = int (count_list s c)"

datatype error =
    ValueError string
  | IndexError string
  | OSError string
  | UnicodeDecodeError string
  | KeyboardInterrupt

fun is_Exception :: "error \<Rightarrow> bool" where
  \<comment> \<open>what \<open>except Exception\<close> catches: \<open>KeyboardInterrupt\<close> derives from
      \<open>BaseException\<close> only\<close>
  "is_Exception KeyboardInterrupt = False"
| "is_Exception _ = True"

fun error_text :: "error \<Rightarrow> string" where
  "error_text (ValueError m) = m"
| "error_text (IndexError m) = m"
| "error_text (OSError m) = m"
| "error_text (UnicodeDecodeError m) = m"
| "error_text KeyboardInterrupt = []"

function split_from :: "string \<Rightarrow> string \<Rightarrow> string \<Rightarrow> string list" where
  \<comment> \<open>the pieces of \<open>s\<close> between the occurrences of a nonempty \<open>sep\<close>, found from the
      left; \<open>acc\<close> is the current piece, reversed\<close>
  "split_from sep acc [] = [rev acc]"
| "split_from sep acc (c # cs) =
     (if sep \<noteq> [] \<and> prefix sep (c # cs)
      then rev acc # split_from sep [] (drop (length sep) (c # cs))
      else split_from sep (c # acc) cs)"
  by pat_completeness auto
termination
  by (relation "measure (\<lambda>(sep, acc, s). length s)") auto

definition split :: "string \<Rightarrow> string \<Rightarrow> error + string list" where
  \<comment> \<open>\<open>s.split(sep)\<close>\<close>
  "split s sep = (if sep = [] then Inl (ValueError ''empty separator'')
                  else Inr (split_from sep [] s))"

definition index :: "'a list \<Rightarrow> int \<Rightarrow> error + 'a" where
  \<comment> \<open>\<open>xs[i]\<close>; a negative \<open>i\<close> counts from the end\<close>
  "index xs i =
     (if 0 \<le> i \<and> i < int (length xs) then Inr (xs ! nat i)
      else if i < 0 \<and> - int (length xs) \<le> i then Inr (xs ! nat (int (length xs) + i))
      else Inl (IndexError ''list index out of range''))"

fun digits :: "nat \<Rightarrow> string" where
  "digits n = (if n < 10 then [char_of (48 + n)]
               else digits (n div 10) @ [char_of (48 + n mod 10)])"

definition str :: "int \<Rightarrow> string" where
  \<comment> \<open>\<open>str(n)\<close>, what an f-string writes for an integer\<close>
  "str n = (if n < 0 then CHR ''-'' # digits (nat (- n)) else digits (nat n))"

fun enumerate_from :: "int \<Rightarrow> 'a list \<Rightarrow> (int \<times> 'a) list" where
  \<comment> \<open>\<open>enumerate(xs, n)\<close>\<close>
  "enumerate_from n [] = []"
| "enumerate_from n (x # xs) = (n, x) # enumerate_from (n + 1) xs"

section \<open>Patterns\<close>

text \<open>
  The patterns of the checker use literals, character classes, sequence, alternation,
  repetition and the word boundary \<open>\b\<close>. A position in the subject is the character
  before it (if any) and the text after it. \<open>ends r x\<close> lists every position at which a
  match of \<open>r\<close> that starts at \<open>x\<close> can end, which is what a backtracking matcher explores;
  \<open>re.match\<close> and \<open>re.search\<close> are only tested for success in the checker.
\<close>

datatype re =
    Chr "char \<Rightarrow> bool"
  | Seq re re
  | Alt re re
  | Star re
  | Eps
  | WordB

type_synonym pos = "char option \<times> string"

fun word_before :: "pos \<Rightarrow> bool" where
  "word_before (None, s) = False"
| "word_before (Some c, s) = isword c"

fun word_after :: "pos \<Rightarrow> bool" where
  "word_after (p, []) = False"
| "word_after (p, c # cs) = isword c"

primrec star_ends :: "nat \<Rightarrow> (pos \<Rightarrow> pos list) \<Rightarrow> pos \<Rightarrow> pos list" where
  \<comment> \<open>repetition: each round must consume text, so at most \<open>length\<close> rounds\<close>
  "star_ends 0 f x = [x]"
| "star_ends (Suc n) f x =
     x # concat (map (star_ends n f)
                  (filter (\<lambda>y. length (snd y) < length (snd x)) (f x)))"

primrec ends :: "re \<Rightarrow> pos \<Rightarrow> pos list" where
  "ends (Chr P) x = (case snd x of [] \<Rightarrow> []
                     | c # cs \<Rightarrow> if P c then [(Some c, cs)] else [])"
| "ends (Seq a b) x = concat (map (ends b) (ends a x))"
| "ends (Alt a b) x = ends a x @ ends b x"
| "ends (Star a) x = star_ends (length (snd x)) (ends a) x"
| "ends Eps x = [x]"
| "ends WordB x = (if word_before x \<noteq> word_after x then [x] else [])"

definition re_match :: "re \<Rightarrow> string \<Rightarrow> bool" where
  \<comment> \<open>\<open>re.match(r, s)\<close> succeeds: a match starts at the beginning of \<open>s\<close>\<close>
  "re_match r s = (ends r (None, s) \<noteq> [])"

fun search_from :: "re \<Rightarrow> char option \<Rightarrow> string \<Rightarrow> bool" where
  "search_from r p [] = (ends r (p, []) \<noteq> [])"
| "search_from r p (c # cs) = (ends r (p, c # cs) \<noteq> [] \<or> search_from r (Some c) cs)"

definition re_search :: "re \<Rightarrow> string \<Rightarrow> bool" where
  \<comment> \<open>\<open>re.search(r, s)\<close> succeeds: a match starts somewhere in \<open>s\<close>\<close>
  "re_search r s = search_from r None s"

fun Lit :: "string \<Rightarrow> re" where
  "Lit [] = Eps"
| "Lit [c] = Chr (\<lambda>x. x = c)"
| "Lit (c # cs) = Seq (Chr (\<lambda>x. x = c)) (Lit cs)"

definition Plus :: "re \<Rightarrow> re" where
  "Plus r = Seq r (Star r)"

definition Seqs :: "re list \<Rightarrow> re" where
  "Seqs rs = foldr Seq rs Eps"

definition Alts :: "re \<Rightarrow> re list \<Rightarrow> re" where
  "Alts r rs = foldl Alt r rs"

definition ws :: re where
  \<comment> \<open>\<open>\s\<close>\<close>
  "ws = Chr isspace"

definition none_of :: "string \<Rightarrow> re" where
  \<comment> \<open>\<open>[^...]\<close>\<close>
  "none_of cs = Chr (\<lambda>c. c \<notin> set cs)"

definition upper :: "char \<Rightarrow> bool" where
  "upper = in_range CHR ''A'' CHR ''Z''"

definition lower :: "char \<Rightarrow> bool" where
  "lower = in_range CHR ''a'' CHR ''z''"

definition alnum :: "char \<Rightarrow> bool" where
  \<comment> \<open>\<open>[a-zA-Z0-9]\<close>\<close>
  "alnum c = (lower c \<or> upper c \<or> in_range CHR ''0'' CHR ''9'' c)"

definition force_unwrap_re :: re where
  \<comment> \<open>\<open>[^!=<>]\s*!\s*[^=]\<close>\<close>
  "force_unwrap_re =
     Seqs [none_of ''!=<>'', Star ws, Lit ''!'', Star ws, none_of ''='']"

definition func_re :: re where
  \<comment> \<open>\<open>\s*(private\s+|public\s+|internal\s+|fileprivate\s+)*func\s+\<close>\<close>
  "func_re =
     Seqs [Star ws,
           Star (Alts (Seq (Lit ''private'') (Plus ws))
                  [Seq (Lit ''public'') (Plus ws),
                   Seq (Lit ''internal'') (Plus ws),
                   Seq (Lit ''fileprivate'') (Plus ws)]),
           Lit ''func'', Plus ws]"

definition todo_colon_re :: re where
  \<comment> \<open>\<open>// TODO:\<close>\<close>
  "todo_colon_re = Lit ''// TODO:''"

definition variable_re :: re where
  \<comment> \<open>\<open>\b(let|var)\s+([A-Z][a-zA-Z0-9]*)\s*=\<close>\<close>
  "variable_re =
     Seqs [WordB, Alt (Lit ''let'') (Lit ''var''), Plus ws,
           Seq (Chr upper) (Star (Chr alnum)), Star ws, Lit ''='']"

definition type_re :: re where
  \<comment> \<open>\<open>\b(class|struct|enum|protocol)\s+([a-z][a-zA-Z0-9]*)\<close>\<close>
  "type_re =
     Seqs [WordB,
           Alts (Lit ''class'') [Lit ''struct'', Lit ''enum'', Lit ''protocol''],
           Plus ws, Seq (Chr lower) (Star (Chr alnum))]"

section \<open>The issue log\<close>

text \<open>
  \<open>log_issue\<close> renders its five arguments into one string, appends it to \<open>self.issues\<close>
  and prints it. The model keeps the five arguments as an \<open>issue\<close>, so that line, severity
  and rule stay observable; \<open>issue_text\<close> is the string the source stores and prints.
  Every \<open>print\<close> of the program is one \<open>printed\<close> value on the console, in order.
\<close>

record issue =
  file_path :: string
  line_num :: int
  severity :: string
  rule :: string
  message :: string

definition issue_text :: "issue \<Rightarrow> string" where
  \<comment> \<open>\<open>f"{file_path}:{line_num}: {severity}: {message} ({rule})"\<close>\<close>
  "issue_text x = file_path x @ '':'' @ str (line_num x) @ '': '' @ severity x @ '': ''
                    @ message x @ '' ('' @ rule x @ '')''"

datatype printed =
    Printed_issue string
  | Linting string
  | Error_checking string string
  | No_swift_files string
  | Found_files int
  | No_issues_found
  | Summary int int
  | Usage
  | Not_a_directory string

record checker =
  issues :: "issue list"
  warnings :: int
  errors :: int
  console :: "printed list"

definition print :: "printed \<Rightarrow> checker \<Rightarrow> checker" where
  "print x c = c\<lparr>console := console c @ [x]\<rparr>"

definition SwiftChecker :: "printed list \<Rightarrow> checker" where
  \<comment> \<open>\<open>__init__\<close>, given what the process has printed so far\<close>
  "SwiftChecker out = \<lparr>issues = [], warnings = 0, errors = 0, console = out\<rparr>"

definition log_issue ::
  "string \<Rightarrow> int \<Rightarrow> string \<Rightarrow> string \<Rightarrow> string \<Rightarrow> checker \<Rightarrow> checker" where
  "log_issue fp n sev r msg c =
     (let issue = \<lparr>file_path = fp, line_num = n, severity = sev, rule = r, message = msg\<rparr>;
          c1 = c\<lparr>issues := issues c @ [issue]\<rparr>;
          c2 = (if sev = ''error'' then c1\<lparr>errors := errors c1 + 1\<rparr>
                else c1\<lparr>warnings := warnings c1 + 1\<rparr>)
      in print (Printed_issue (issue_text issue)) c2)"

section \<open>The rule evaluators\<close>

definition line_length_step :: "string \<Rightarrow> int \<times> string \<Rightarrow> checker \<Rightarrow> checker" where
  "line_length_step fp = (\<lambda>(i, line) c.
     if int (length (rstrip line)) > 120
     then log_issue fp i ''warning'' ''line_length''
            (''Line should be 120 characters or less: currently ''
               @ str (int (length (rstrip line))) @ '' characters'') c
     else c)"

definition check_line_length :: "string \<Rightarrow> string list \<Rightarrow> checker \<Rightarrow> checker" where
  "check_line_length fp lines c = fold (line_length_step fp) (enumerate_from 1 lines) c"

definition code_part_of :: "string \<Rightarrow> error + string" where
  \<comment> \<open>\<open>line.split("//")[0] if "//" in line else line\<close>\<close>
  "code_part_of line =
     (if py_in ''//'' line
      then (case split line ''//'' of Inl e \<Rightarrow> Inl e | Inr parts \<Rightarrow> index parts 0)
      else Inr line)"

definition force_unwrapping_step ::
  "string \<Rightarrow> int \<times> string \<Rightarrow> checker \<Rightarrow> (error \<times> checker) + checker" where
  "force_unwrapping_step fp = (\<lambda>(i, line) c.
     case code_part_of line of
       Inl e \<Rightarrow> Inl (e, c)
     | Inr code_part \<Rightarrow>
         Inr (if re_search force_unwrap_re code_part
              then log_issue fp i ''warning'' ''force_unwrapping''
                     ''Avoid force unwrapping! Use optional binding or guard statements'' c
              else c))"

fun try_each ::
  "('a \<Rightarrow> checker \<Rightarrow> (error \<times> checker) + checker) \<Rightarrow> 'a list \<Rightarrow> checker
     \<Rightarrow> (error \<times> checker) + checker" where
  \<comment> \<open>a \<open>for\<close> loop whose body may raise: the exception leaves the loop, with the
      checker as it is at that moment\<close>
  "try_each f [] c = Inr c"
| "try_each f (x # xs) c = (case f x c of Inl ec \<Rightarrow> Inl ec | Inr c' \<Rightarrow> try_each f xs c')"

definition check_force_unwrapping ::
  "string \<Rightarrow> string list \<Rightarrow> checker \<Rightarrow> (error \<times> checker) + checker" where
  "check_force_unwrapping fp lines c =
     try_each (force_unwrapping_step fp) (enumerate_from 1 lines) c"

definition try_force_step :: "string \<Rightarrow> int \<times> string \<Rightarrow> checker \<Rightarrow> checker" where
  "try_force_step fp = (\<lambda>(i, line) c.
     if py_in ''try!'' line \<and> \<not> startswith (strip line) ''//''
     then log_issue fp i ''warning'' ''try_force''
            ''Avoid try! - use proper error handling with do-catch or try?'' c
     else c)"

definition check_try_force :: "string \<Rightarrow> string list \<Rightarrow> checker \<Rightarrow> checker" where
  "check_try_force fp lines c = fold (try_force_step fp) (enumerate_from 1 lines) c"

record span =
  in_function :: bool
  function_start :: int
  brace_count :: int

definition no_span :: span where
  "no_span = \<lparr>in_function = False, function_start = 0, brace_count = 0\<rparr>"

definition braces :: "string \<Rightarrow> int" where
  \<comment> \<open>\<open>line.count('{') - line.count('}')\<close>\<close>
  "braces line = count_char line CHR ''{'' - count_char line CHR ''}''"

definition is_func_line :: "string \<Rightarrow> bool" where
  "is_func_line line = re_match func_re (strip line)"

definition function_length_message :: "int \<Rightarrow> string" where
  \<comment> \<open>\<open>f"Function body should be 60 lines or less: currently {function_length} lines"\<close>\<close>
  "function_length_message function_length =
     ''Function body should be 60 lines or less: currently '' @ str function_length @ '' lines''"

definition function_length_step ::
  "string \<Rightarrow> int \<times> string \<Rightarrow> span \<times> checker \<Rightarrow> span \<times> checker" where
  "function_length_step fp = (\<lambda>(i, line) (s, c).
     if is_func_line line then
       (if py_in ''{'' line
        then (\<lparr>in_function = True, function_start = i, brace_count = braces line\<rparr>, c)
        else (s, c))
     else if in_function s then
       (let s1 = s\<lparr>brace_count := brace_count s + braces line\<rparr>
        in if brace_count s1 \<le> 0 then
             (let function_length = i - function_start s1 + 1
              in (s1\<lparr>in_function := False\<rparr>,
                  if function_length > 60
                  then log_issue fp (function_start s1) ''warning'' ''function_body_length''
                         (function_length_message function_length) c
                  else c))
           else (s1, c))
     else (s, c))"

definition function_length_loop ::
  "string \<Rightarrow> string list \<Rightarrow> checker \<Rightarrow> span \<times> checker" where
  \<comment> \<open>the loop of \<open>check_function_length\<close>, with its local variables at the end\<close>
  "function_length_loop fp lines c =
     fold (function_length_step fp) (enumerate_from 1 lines) (no_span, c)"

definition check_function_length :: "string \<Rightarrow> string list \<Rightarrow> checker \<Rightarrow> checker" where
  "check_function_length fp lines c = snd (function_length_loop fp lines c)"

definition todo_format_step :: "string \<Rightarrow> int \<times> string \<Rightarrow> checker \<Rightarrow> checker" where
  "todo_format_step fp = (\<lambda>(i, line) c.
     if py_in ''// TODO'' line \<and> \<not> re_search todo_colon_re line
     then log_issue fp i ''warning'' ''todo_format''
            ''TODO comments should include context: // TODO: Description'' c
     else c)"

definition check_todo_format :: "string \<Rightarrow> string list \<Rightarrow> checker \<Rightarrow> checker" where
  "check_todo_format fp lines c = fold (todo_format_step fp) (enumerate_from 1 lines) c"

definition naming_conventions_step :: "string \<Rightarrow> int \<times> string \<Rightarrow> checker \<Rightarrow> checker" where
  "naming_conventions_step fp = (\<lambda>(i, line) c.
     let c1 = (if re_search variable_re line
               then log_issue fp i ''warning'' ''variable_name''
                      ''Variable names should start with lowercase letter (camelCase)'' c
               else c)
     in if re_search type_re line
        then log_issue fp i ''warning'' ''type_name''
               ''Type names should start with uppercase letter (PascalCase)'' c1
        else c1)"

definition check_naming_conventions :: "string \<Rightarrow> string list \<Rightarrow> checker \<Rightarrow> checker" where
  "check_naming_conventions fp lines c =
     fold (naming_conventions_step fp) (enumerate_from 1 lines) c"

section \<open>Scanning files and the verdict\<close>

text \<open>
  The file system is what the program asks of it: whether a path is a directory, the
  result of the recursive glob for \<open>*.swift\<close>, and the result of opening and reading a
  file, which may raise.
\<close>

record world =
  isdir :: "string \<Rightarrow> bool"
  glob_swift :: "string \<Rightarrow> string list"
  readlines :: "string \<Rightarrow> error + string list"

definition run_checks ::
  "string \<Rightarrow> string list \<Rightarrow> checker \<Rightarrow> (error \<times> checker) + checker" where
  \<comment> \<open>the six calls of \<open>check_file\<close>, in its order\<close>
  "run_checks fp lines c =
     (case check_force_unwrapping fp lines (check_line_length fp lines c) of
        Inl ec \<Rightarrow> Inl ec
      | Inr c2 \<Rightarrow>
          Inr (check_naming_conventions fp lines
                (check_todo_format fp lines
                  (check_function_length fp lines
                    (check_try_force fp lines c2)))))"

definition check_file :: "world \<Rightarrow> string \<Rightarrow> checker \<Rightarrow> (error \<times> checker) + checker" where
  "check_file w fp c =
     (case (case readlines w fp of
              Inl e \<Rightarrow> Inl (e, c)
            | Inr lines \<Rightarrow> run_checks fp lines (print (Linting fp) c)) of
        Inl (e, c') \<Rightarrow>
          if is_Exception e then Inr (print (Error_checking fp (error_text e)) c')
          else Inl (e, c')
      | Inr c' \<Rightarrow> Inr c')"

definition check_directory ::
  "world \<Rightarrow> string \<Rightarrow> checker \<Rightarrow> (error \<times> checker) + checker" where
  "check_directory w directory c =
     (let swift_files = glob_swift w directory
      in if swift_files = [] then Inr (print (No_swift_files directory) c)
         else try_each (check_file w) swift_files
                (print (Found_files (int (length swift_files))) c))"

definition summary :: "checker \<Rightarrow> bool \<times> checker" where
  "summary c =
     (errors c > 0,
      if warnings c = 0 \<and> errors c = 0 then print No_issues_found c
      else print (Summary (warnings c) (errors c)) c)"

datatype outcome = Exit int | Uncaught error

definition main :: "world \<Rightarrow> string list \<Rightarrow> outcome \<times> printed list" where
  \<comment> \<open>how the process ends, and everything it printed\<close>
  "main w argv =
     (if length argv < 2 then (Exit 1, [Usage])
      else let directory = argv ! 1
           in if \<not> isdir w directory then (Exit 1, [Not_a_directory directory])
              else case check_directory w directory (SwiftChecker []) of
                     Inl (e, c) \<Rightarrow> (Uncaught e, console c)
                   | Inr c \<Rightarrow>
                       (let (has_errors, c') = summary c
                        in (Exit (if has_errors then 1 else 0), console c')))"

section \<open>Runs of the checker\<close>

text \<open>
  Between creation and exit the checker changes only through \<open>log_issue\<close>, which every
  rule calls with severity \<open>warning\<close>, and through printing. \<open>run_steps c c'\<close> says that
  \<open>c'\<close> comes from \<open>c\<close> by a sequence of such operations; \<open>final\<close> is the checker a call
  leaves behind, whether it returned or raised.
\<close>

fun progress_line :: "printed \<Rightarrow> bool" where
  \<comment> \<open>what is printed while files are scanned\<close>
  "progress_line (Printed_issue x) = True"
| "progress_line (Linting fp) = True"
| "progress_line (Error_checking fp e) = True"
| "progress_line (No_swift_files d) = True"
| "progress_line (Found_files n) = True"
| "progress_line No_issues_found = False"
| "progress_line (Summary w e) = False"
| "progress_line Usage = False"
| "progress_line (Not_a_directory d) = False"

inductive run_step :: "checker \<Rightarrow> checker \<Rightarrow> bool" where
  logs: "run_step c (log_issue fp n ''warning'' r msg c)"
| prints: "progress_line x \<Longrightarrow> run_step c (print x c)"

definition run_steps :: "checker \<Rightarrow> checker \<Rightarrow> bool" where
  "run_steps = run_step\<^sup>*\<^sup>*"

fun final :: "(error \<times> checker) + checker \<Rightarrow> checker" where
  "final (Inl (e, c)) = c"
| "final (Inr c) = c"




text \<open>
  Sample files for the function-length rule: a function declared on line 10 with \<open>n\<close>
  body lines before its closing brace, and a function nested in another one.
\<close>

definition long_function_file :: "nat \<Rightarrow> string list" where
  "long_function_file n =
     replicate 9 ''\<newline>'' @ ''func render() {\<newline>'' # replicate n ''  draw()\<newline>'' @ [''}\<newline>'']"

definition nested_file :: "string list" where
  "nested_file =
     [''func outer() {\<newline>''] @ ''  func inner() {\<newline>'' # replicate 61 ''    work()\<newline>''
       @ [''  }\<newline>'', ''}\<newline>'']"

text \<open>
  For stating what the patterns accept: the character before a position once \<open>u\<close> has
  been read, and the two line shapes that the naming rule looks for.
\<close>

definition after :: "char option \<Rightarrow> string \<Rightarrow> char option" where
  "after q u = (if u = [] then q else Some (last u))"

definition uppercase_binding_with_equals :: "string \<Rightarrow> bool" where
  "uppercase_binding_with_equals line =
     (\<exists>pre kw sp1 U name sp2 post. line = pre @ kw @ sp1 @ U # name @ sp2 @ ''='' @ post
        \<and> (kw = ''let'' \<or> kw = ''var'') \<and> (pre = [] \<or> \<not> isword (last pre))
        \<and> sp1 \<noteq> [] \<and> list_all isspace sp1 \<and> upper U \<and> list_all alnum name
        \<and> list_all isspace sp2)"

definition lowercase_type_declaration :: "string \<Rightarrow> bool" where
  "lowercase_type_declaration line =
     (\<exists>pre kw sp l rest. line = pre @ kw @ sp @ l # rest
        \<and> (kw = ''class'' \<or> kw = ''struct'' \<or> kw = ''enum'' \<or> kw = ''protocol'')
        \<and> (pre = [] \<or> \<not> isword (last pre))
        \<and> sp \<noteq> [] \<and> list_all isspace sp \<and> lower l)"

text \<open>A directory in which reading the file is interrupted from the keyboard.\<close>

definition interrupted_world :: world where
  "interrupted_world = \<lparr>isdir = (\<lambda>d. d = ''src''),
                         glob_swift = (\<lambda>d. [''src/a.swift'']),
                         readlines = (\<lambda>p. Inl KeyboardInterrupt)\<rparr>"

text \<open>
  The to-do rule in the words of its description: a line has the marker, and the marker is
  immediately followed by a colon. The issues that the to-do and the naming rules log.
\<close>

definition has_todo_marker :: "string \<Rightarrow> bool" where
  "has_todo_marker line = (\<exists>pre post. line = pre @ ''// TODO'' @ post)"

definition todo_marker_with_colon :: "string \<Rightarrow> bool" where
  "todo_marker_with_colon line = (\<exists>pre post. line = pre @ ''// TODO'' @ '':'' @ post)"

definition todo_format_issue :: "string \<Rightarrow> int \<Rightarrow> issue" where
  "todo_format_issue fp i =
     \<lparr>file_path = fp, line_num = i, severity = ''warning'', rule = ''todo_format'',
      message = ''TODO comments should include context: // TODO: Description''\<rparr>"

definition variable_name_issue :: "string \<Rightarrow> int \<Rightarrow> issue" where
  "variable_name_issue fp i =
     \<lparr>file_path = fp, line_num = i, severity = ''warning'', rule = ''variable_name'',
      message = ''Variable names should start with lowercase letter (camelCase)''\<rparr>"

definition type_name_issue :: "string \<Rightarrow> int \<Rightarrow> issue" where
  "type_name_issue fp i =
     \<lparr>file_path = fp, line_num = i, severity = ''warning'', rule = ''type_name'',
      message = ''Type names should start with uppercase letter (PascalCase)''\<rparr>"

text \<open>
  The forced-unwrap rule as its description words it, to compare with the pattern: the
  code portion has a \<open>!\<close> that is not immediately preceded by \<open>!\<close>, \<open>=\<close>, \<open><\<close> or \<open>>\<close> and
  not immediately followed by \<open>=\<close>. A \<open>!\<close> with nothing before it, or nothing after it, is
  then neither preceded nor followed by such a character.
\<close>

fun unwrap_claimed_from :: "char option \<Rightarrow> string \<Rightarrow> bool" where
  "unwrap_claimed_from p [] = False"
| "unwrap_claimed_from p (c # cs) =
     (if c = CHR ''!''
         \<and> (case p of None \<Rightarrow> True | Some a \<Rightarrow> a \<notin> set ''!=<>'')
         \<and> (case cs of [] \<Rightarrow> True | b # bs \<Rightarrow> b \<noteq> CHR ''='')
      then True else unwrap_claimed_from (Some c) cs)"

definition claimed_force_unwrap :: "string \<Rightarrow> bool" where
  "claimed_force_unwrap code_part = unwrap_claimed_from None code_part"

section \<open>Properties of the issue log and of runs\<close>

lemma issues_print [simp]: "issues (print x c) = issues c"
  and warnings_print [simp]: "warnings (print x c) = warnings c"
  and errors_print [simp]: "errors (print x c) = errors c"
  and console_print [simp]: "console (print x c) = console c @ [x]"
  by (simp_all add: print_def)

lemma issues_log_issue [simp]:
  "issues (log_issue fp n sev r msg c) =
     issues c @ [\<lparr>file_path = fp, line_num = n, severity = sev, rule = r, message = msg\<rparr>]"
  by (simp add: log_issue_def Let_def)

lemma console_log_issue [simp]:
  "console (log_issue fp n sev r msg c) =
     console c @ [Printed_issue (issue_text \<lparr>file_path = fp, line_num = n, severity = sev,
                                             rule = r, message = msg\<rparr>)]"
  by (simp add: log_issue_def Let_def)

lemma warnings_log_issue [simp]:
  "warnings (log_issue fp n sev r msg c) = (if sev = ''error'' then warnings c else warnings c + 1)"
  by (simp add: log_issue_def Let_def)

lemma errors_log_issue [simp]:
  "errors (log_issue fp n sev r msg c) = (if sev = ''error'' then errors c + 1 else errors c)"
  by (simp add: log_issue_def Let_def)

lemma run_steps_refl [simp]: "run_steps c c"
  by (simp add: run_steps_def)

lemma run_steps_trans: "run_steps a b \<Longrightarrow> run_steps b c \<Longrightarrow> run_steps a c"
  by (simp add: run_steps_def)

lemma run_steps_log [simp]: "run_steps c (log_issue fp n ''warning'' r msg c)"
  by (simp add: run_steps_def r_into_rtranclp run_step.logs)

lemma run_steps_print [simp]: "progress_line x \<Longrightarrow> run_steps c (print x c)"
  by (simp add: run_steps_def r_into_rtranclp run_step.prints)

lemma run_steps_log_after: "run_steps c c' \<Longrightarrow> run_steps c (log_issue fp n ''warning'' r msg c')"
  by (rule run_steps_trans [OF _ run_steps_log])

lemma run_steps_fold:
  assumes "\<And>x c. run_steps c (f x c)"
  shows "run_steps c (fold f xs c)"
proof (induction xs arbitrary: c)
  case Nil
  show ?case by simp
next
  case (Cons x xs)
  have "run_steps c (f x c)" by (rule assms)
  moreover have "run_steps (f x c) (fold f xs (f x c))" by (rule Cons.IH)
  ultimately show ?case by (simp only: fold_simps) (rule run_steps_trans)
qed

lemma run_steps_try_each:
  assumes "\<And>x c. run_steps c (final (f x c))"
  shows "run_steps c (final (try_each f xs c))"
proof (induction xs arbitrary: c)
  case Nil
  show ?case by simp
next
  case (Cons x xs)
  show ?case
  proof (cases "f x c")
    case (Inl ec)
    with assms [of c x] show ?thesis by simp
  next
    case (Inr c')
    with assms [of c x] have "run_steps c c'" by simp
    moreover have "run_steps c' (final (try_each f xs c'))" by (rule Cons.IH)
    ultimately have "run_steps c (final (try_each f xs c'))" by (rule run_steps_trans)
    then show ?thesis using Inr by simp
  qed
qed

lemma run_steps_line_length: "run_steps c (check_line_length fp lines c)"
  unfolding check_line_length_def
  by (rule run_steps_fold) (simp add: line_length_step_def split: prod.split)

lemma run_steps_try_force: "run_steps c (check_try_force fp lines c)"
  unfolding check_try_force_def
  by (rule run_steps_fold) (simp add: try_force_step_def split: prod.split)

lemma run_steps_todo_format: "run_steps c (check_todo_format fp lines c)"
  unfolding check_todo_format_def
  by (rule run_steps_fold) (simp add: todo_format_step_def split: prod.split)

lemma run_steps_naming_conventions: "run_steps c (check_naming_conventions fp lines c)"
  unfolding check_naming_conventions_def
  by (rule run_steps_fold)
     (simp add: naming_conventions_step_def Let_def run_steps_log_after split: prod.split)

lemma run_steps_force_unwrapping: "run_steps c (final (check_force_unwrapping fp lines c))"
  unfolding check_force_unwrapping_def
  by (rule run_steps_try_each)
     (simp add: force_unwrapping_step_def split: prod.split sum.split)

lemma run_steps_function_length_fold:
  "run_steps c (snd (fold (function_length_step fp) xs (s, c)))"
proof (induction xs arbitrary: s c)
  case Nil
  show ?case by simp
next
  case (Cons x xs)
  obtain s' c' where step: "function_length_step fp x (s, c) = (s', c')"
    by (cases "function_length_step fp x (s, c)")
  then have "run_steps c c'"
    by (auto simp add: function_length_step_def Let_def split: prod.splits if_splits)
  moreover have "run_steps c' (snd (fold (function_length_step fp) xs (s', c')))"
    by (rule Cons.IH)
  ultimately have "run_steps c (snd (fold (function_length_step fp) xs (s', c')))"
    by (rule run_steps_trans)
  then show ?case using step by simp
qed

lemma run_steps_function_length: "run_steps c (check_function_length fp lines c)"
  by (simp add: check_function_length_def function_length_loop_def
        run_steps_function_length_fold)

lemma run_steps_run_checks: "run_steps c (final (run_checks fp lines c))"
proof (cases "check_force_unwrapping fp lines (check_line_length fp lines c)")
  case (Inl ec)
  have "run_steps c (final (check_force_unwrapping fp lines (check_line_length fp lines c)))"
    by (rule run_steps_trans [OF run_steps_line_length run_steps_force_unwrapping])
  with Inl show ?thesis by (simp add: run_checks_def)
next
  case (Inr c2)
  have "run_steps c (final (check_force_unwrapping fp lines (check_line_length fp lines c)))"
    by (rule run_steps_trans [OF run_steps_line_length run_steps_force_unwrapping])
  with Inr have "run_steps c c2" by simp
  then have "run_steps c (check_naming_conventions fp lines
                (check_todo_format fp lines
                  (check_function_length fp lines
                    (check_try_force fp lines c2))))"
    by (intro run_steps_trans [OF _ run_steps_naming_conventions]
          run_steps_trans [OF _ run_steps_todo_format]
          run_steps_trans [OF _ run_steps_function_length]
          run_steps_trans [OF _ run_steps_try_force])
  with Inr show ?thesis by (simp add: run_checks_def)
qed

lemma run_steps_check_file: "run_steps c (final (check_file w fp c))"
proof (cases "readlines w fp")
  case (Inl e)
  then show ?thesis by (simp add: check_file_def)
next
  case (Inr lines)
  have a: "run_steps c (final (run_checks fp lines (print (Linting fp) c)))"
    by (rule run_steps_trans [OF run_steps_print run_steps_run_checks]) simp
  show ?thesis
  proof (cases "run_checks fp lines (print (Linting fp) c)")
    case (Inl ec)
    obtain e c' where ec: "ec = (e, c')" by (cases ec)
    with a Inl have "run_steps c c'" by simp
    then have "run_steps c (print (Error_checking fp (error_text e)) c')"
      by (rule run_steps_trans) simp
    with \<open>run_steps c c'\<close> show ?thesis using Inr Inl ec by (simp add: check_file_def)
  next
    case (Inr c')
    with a show ?thesis using \<open>readlines w fp = Inr lines\<close> by (simp add: check_file_def)
  qed
qed

lemma run_steps_check_directory: "run_steps c (final (check_directory w d c))"
proof (cases "glob_swift w d = []")
  case True
  then show ?thesis by (simp add: check_directory_def)
next
  case False
  have "run_steps (print (Found_files (int (length (glob_swift w d)))) c)
          (final (try_each (check_file w) (glob_swift w d)
                    (print (Found_files (int (length (glob_swift w d)))) c)))"
    by (rule run_steps_try_each) (rule run_steps_check_file)
  then have "run_steps c
          (final (try_each (check_file w) (glob_swift w d)
                    (print (Found_files (int (length (glob_swift w d)))) c)))"
    using run_steps_print [of "Found_files (int (length (glob_swift w d)))" c]
    by (simp add: run_steps_trans [of c "print (Found_files (int (length (glob_swift w d)))) c"])
  then show ?thesis using False
    by (simp add: check_directory_def Let_def)
qed


lemma run_steps_console:
  assumes "run_steps c c'"
  shows "\<exists>out. console c' = console c @ out \<and> list_all progress_line out"
  using assms unfolding run_steps_def
proof (induction rule: rtranclp_induct)
  case base
  show ?case by simp
next
  case (step y z)
  then obtain out where out: "console y = console c @ out" "list_all progress_line out"
    by blast
  from step.hyps(2) show ?case
  proof cases
    case (logs fp n r msg)
    with out show ?thesis
      by (intro exI [of _ "out @ [Printed_issue (issue_text
            \<lparr>file_path = fp, line_num = n, severity = ''warning'', rule = r, message = msg\<rparr>)]"])
         simp
  next
    case (prints x)
    with out show ?thesis by (intro exI [of _ "out @ [x]"]) simp
  qed
qed








section \<open>The function-length rule\<close>
lemma enumerate_from_append:
  "enumerate_from n (xs @ ys) = enumerate_from n xs @ enumerate_from (n + int (length xs)) ys"
  by (induction xs arbitrary: n) (simp_all add: algebra_simps)

lemma function_length_step_decl:
  assumes "is_func_line line" and "py_in ''{'' line"
  shows "function_length_step fp (i, line) (s, c) =
           (\<lparr>in_function = True, function_start = i, brace_count = braces line\<rparr>, c)"
  using assms by (simp add: function_length_step_def)

lemma function_length_step_skip:
  assumes "is_func_line line" and "\<not> py_in ''{'' line"
  shows "function_length_step fp (i, line) (s, c) = (s, c)"
  using assms by (simp add: function_length_step_def)

lemma function_length_step_outside:
  assumes "\<not> is_func_line line" and "\<not> in_function s"
  shows "function_length_step fp (i, line) (s, c) = (s, c)"
  using assms by (simp add: function_length_step_def)

lemma function_length_step_open:
  assumes "\<not> is_func_line line" and "in_function s" and "0 < brace_count s + braces line"
  shows "function_length_step fp (i, line) (s, c) =
           (s\<lparr>brace_count := brace_count s + braces line\<rparr>, c)"
  using assms by (simp add: function_length_step_def Let_def)

lemma function_length_step_close:
  assumes "\<not> is_func_line line" and "in_function s" and "brace_count s + braces line \<le> 0"
  shows "function_length_step fp (i, line) (s, c) =
           (s\<lparr>brace_count := brace_count s + braces line, in_function := False\<rparr>,
            if i - function_start s + 1 > 60
            then log_issue fp (function_start s) ''warning'' ''function_body_length''
                   (function_length_message (i - function_start s + 1)) c
            else c)"
  using assms by (simp add: function_length_step_def Let_def)

lemma fold_outside:
  assumes "\<forall>l \<in> set ls. \<not> is_func_line l" and "\<not> in_function s"
  shows "fold (function_length_step fp) (enumerate_from n ls) (s, c) = (s, c)"
  using assms
  by (induction ls arbitrary: n) (simp_all add: function_length_step_outside)

lemma fold_open:
  assumes "\<forall>l \<in> set ls. \<not> is_func_line l" and "in_function s"
    and "\<forall>k. 1 \<le> k \<and> k \<le> length ls \<longrightarrow> 0 < brace_count s + sum_list (map braces (take k ls))"
  shows "fold (function_length_step fp) (enumerate_from n ls) (s, c) =
           (s\<lparr>brace_count := brace_count s + sum_list (map braces ls)\<rparr>, c)"
  using assms
proof (induction ls arbitrary: n s)
  case Nil
  show ?case by simp
next
  case (Cons l ls)
  from Cons.prems(3) [rule_format, of 1] have pos: "0 < brace_count s + braces l" by simp
  let ?s = "s\<lparr>brace_count := brace_count s + braces l\<rparr>"
  have step: "function_length_step fp (n, l) (s, c) = (?s, c)"
    using Cons.prems pos by (simp add: function_length_step_open)
  have later: "\<forall>k. 1 \<le> k \<and> k \<le> length ls \<longrightarrow>
                  0 < brace_count ?s + sum_list (map braces (take k ls))"
  proof (intro allI impI)
    fix k assume "1 \<le> k \<and> k \<le> length ls"
    with Cons.prems(3) [rule_format, of "Suc k"] show
      "0 < brace_count ?s + sum_list (map braces (take k ls))" by (simp add: algebra_simps)
  qed
  have "fold (function_length_step fp) (enumerate_from (n + 1) ls) (?s, c) =
          (?s\<lparr>brace_count := brace_count ?s + sum_list (map braces ls)\<rparr>, c)"
    using Cons.prems later by (intro Cons.IH) simp_all
  with step show ?case by (simp add: algebra_simps)
qed


lemma fold_span:
  assumes "is_func_line decl" and "py_in ''{'' decl"
    and "\<forall>l \<in> set (body @ [closing]). \<not> is_func_line l"
    and "\<forall>k. 1 \<le> k \<and> k \<le> length body \<longrightarrow>
           0 < braces decl + sum_list (map braces (take k body))"
    and "braces decl + sum_list (map braces body) + braces closing \<le> 0"
  shows "fold (function_length_step fp) (enumerate_from n (decl # body @ [closing])) (s0, c) =
           (\<lparr>in_function = False, function_start = n,
              brace_count = braces decl + sum_list (map braces body) + braces closing\<rparr>,
            if int (length body) + 2 > 60
            then log_issue fp n ''warning'' ''function_body_length''
                   (function_length_message (int (length body) + 2)) c
            else c)"
proof -
  let ?f = "function_length_step fp"
  let ?s1 = "\<lparr>in_function = True, function_start = n, brace_count = braces decl\<rparr>"
  let ?s2 = "\<lparr>in_function = True, function_start = n,
              brace_count = braces decl + sum_list (map braces body)\<rparr>"
  have first: "?f (n, decl) (s0, c) = (?s1, c)"
    using assms(1,2) by (rule function_length_step_decl)
  have middle: "fold ?f (enumerate_from (n + 1) body) (?s1, c) = (?s2, c)"
    using fold_open [of body ?s1 fp "n + 1" c] assms(3,4) by simp
  have last: "?f (n + 1 + int (length body), closing) (?s2, c) =
                (\<lparr>in_function = False, function_start = n,
                   brace_count = braces decl + sum_list (map braces body) + braces closing\<rparr>,
                 if int (length body) + 2 > 60
                 then log_issue fp n ''warning'' ''function_body_length''
                        (function_length_message (int (length body) + 2)) c
                 else c)"
    using function_length_step_close [of closing ?s2 fp "n + 1 + int (length body)" c]
      assms(3,5) by (simp add: add.commute [of "int (length body)" 2])
  have "fold ?f (enumerate_from n (decl # body @ [closing])) (s0, c) =
          ?f (n + 1 + int (length body), closing)
            (fold ?f (enumerate_from (n + 1) body) (?f (n, decl) (s0, c)))"
    by (simp add: enumerate_from_append)
  also have "\<dots> = ?f (n + 1 + int (length body), closing) (?s2, c)"
    by (simp only: first middle)
  finally show ?thesis by (simp only: last)
qed

lemma loop_span:
  assumes "is_func_line decl" and "py_in ''{'' decl"
    and "\<forall>l \<in> set (body @ closing # post). \<not> is_func_line l"
    and "\<forall>k. 1 \<le> k \<and> k \<le> length body \<longrightarrow>
           0 < braces decl + sum_list (map braces (take k body))"
    and "braces decl + sum_list (map braces body) + braces closing \<le> 0"
  shows "function_length_loop fp (pre @ decl # body @ closing # post) c =
           (\<lparr>in_function = False, function_start = int (length pre) + 1,
              brace_count = braces decl + sum_list (map braces body) + braces closing\<rparr>,
            if int (length body) + 2 > 60
            then log_issue fp (int (length pre) + 1) ''warning'' ''function_body_length''
                   (function_length_message (int (length body) + 2))
                   (snd (function_length_loop fp pre c))
            else snd (function_length_loop fp pre c))"
proof -
  let ?f = "function_length_step fp"
  obtain s1 c1 where pre: "fold ?f (enumerate_from 1 pre) (no_span, c) = (s1, c1)"
    by (cases "fold ?f (enumerate_from 1 pre) (no_span, c)")
  have a: "\<forall>l \<in> set (body @ [closing]). \<not> is_func_line l" using assms(3) by simp
  have b: "\<forall>l \<in> set post. \<not> is_func_line l" using assms(3) by simp
  let ?n = "1 + int (length pre)"
  let ?m = "?n + int (length (decl # body @ [closing]))"
  have "pre @ decl # body @ closing # post = pre @ (decl # body @ [closing]) @ post"
    by simp
  then have "function_length_loop fp (pre @ decl # body @ closing # post) c =
          fold ?f (enumerate_from ?m post)
            (fold ?f (enumerate_from ?n (decl # body @ [closing]))
               (fold ?f (enumerate_from 1 pre) (no_span, c)))"
    by (simp only: function_length_loop_def enumerate_from_append fold_append comp_def)
  also have "\<dots> = fold ?f (enumerate_from ?m post)
            (fold ?f (enumerate_from ?n (decl # body @ [closing])) (s1, c1))"
    by (simp only: pre)
  also have "\<dots> = fold ?f (enumerate_from ?m post)
           (\<lparr>in_function = False, function_start = ?n,
              brace_count = braces decl + sum_list (map braces body) + braces closing\<rparr>,
            if int (length body) + 2 > 60
            then log_issue fp ?n ''warning'' ''function_body_length''
                   (function_length_message (int (length body) + 2)) c1
            else c1)"
    by (simp only: fold_span [OF assms(1,2) a assms(4,5)])
  also have "\<dots> =
           (\<lparr>in_function = False, function_start = ?n,
              brace_count = braces decl + sum_list (map braces body) + braces closing\<rparr>,
            if int (length body) + 2 > 60
            then log_issue fp ?n ''warning'' ''function_body_length''
                   (function_length_message (int (length body) + 2)) c1
            else c1)"
    by (rule fold_outside [OF b]) simp
  finally show ?thesis
    using pre by (simp add: function_length_loop_def add.commute)
qed

lemma function_length_message_66:
  "function_length_message 66 = ''Function body should be 60 lines or less: currently 66 lines''"
  by code_simp

lemma function_length_message_63:
  "function_length_message 63 = ''Function body should be 60 lines or less: currently 63 lines''"
  by code_simp

lemma loop_outside:
  assumes "\<forall>l \<in> set ls. \<not> is_func_line l"
  shows "function_length_loop fp ls c = (no_span, c)"
  unfolding function_length_loop_def
  by (rule fold_outside [OF assms]) (simp add: no_span_def)

lemma sample_lines:
  "\<not> is_func_line ''\<newline>''" "is_func_line ''func render() {\<newline>''"
  "\<not> is_func_line ''  draw()\<newline>''" "\<not> is_func_line ''}\<newline>''"
  "is_func_line ''func outer() {\<newline>''" "is_func_line ''  func inner() {\<newline>''"
  "\<not> is_func_line ''    work()\<newline>''" "\<not> is_func_line ''  }\<newline>''"
  "is_func_line ''func f() { }''"
  by code_simp+

lemma sample_braces:
  "py_in ''{'' ''func render() {\<newline>''" "braces ''func render() {\<newline>'' = 1"
  "braces ''  draw()\<newline>'' = 0" "braces ''}\<newline>'' = - 1"
  "py_in ''{'' ''  func inner() {\<newline>''" "braces ''  func inner() {\<newline>'' = 1"
  "braces ''    work()\<newline>'' = 0" "braces ''  }\<newline>'' = - 1"
  "py_in ''{'' ''func f() { }''" "braces ''func f() { }'' = 0"
  by (simp_all add: braces_def count_char_def)

text \<open>
  Claim C2. In a file whose only function declaration line is line 10, with an opening
  brace on it, and whose brace depth stays above zero on lines 11 to 74 and reaches zero or
  below on line 75, the function-length rule logs exactly one issue: a warning with rule
  \<open>function_body_length\<close> for line 10 that reports 66 lines. If the depth reaches zero or
  below on line 69 instead (60 lines), the rule logs nothing.
\<close>

theorem function_length_lines_10_to_75:
  assumes "length pre = 9"
    and "\<forall>l \<in> set (pre @ body @ closing # post). \<not> is_func_line l"
    and "is_func_line decl" and "py_in ''{'' decl"
    and "\<forall>k. 1 \<le> k \<and> k \<le> length body \<longrightarrow>
           0 < braces decl + sum_list (map braces (take k body))"
    and "braces decl + sum_list (map braces body) + braces closing \<le> 0"
  shows "(length body = 64 \<longrightarrow>
            issues (check_function_length fp (pre @ decl # body @ closing # post) c) =
              issues c @ [\<lparr>file_path = fp, line_num = 10, severity = ''warning'',
                           rule = ''function_body_length'',
                           message = ''Function body should be 60 lines or less: currently 66 lines''\<rparr>])
       \<and> (length body = 58 \<longrightarrow>
            issues (check_function_length fp (pre @ decl # body @ closing # post) c) = issues c)"
proof -
  have rest: "\<forall>l \<in> set (body @ closing # post). \<not> is_func_line l" using assms(2) by simp
  have "\<forall>l \<in> set pre. \<not> is_func_line l" using assms(2) by simp
  then have pre: "function_length_loop fp pre c = (no_span, c)" by (rule loop_outside)
  note span = loop_span [OF assms(3,4) rest assms(5,6), of fp pre c]
  show ?thesis
    unfolding check_function_length_def span pre
    using assms(1) by (simp add: function_length_message_66)
qed

theorem function_length_lines_10_to_75_witness:
  "issues (check_function_length ''a.swift'' (long_function_file 64) (SwiftChecker [])) =
     [\<lparr>file_path = ''a.swift'', line_num = 10, severity = ''warning'',
        rule = ''function_body_length'',
        message = ''Function body should be 60 lines or less: currently 66 lines''\<rparr>]
   \<and> issues (check_function_length ''a.swift'' (long_function_file 58) (SwiftChecker [])) = []"
proof -
  have a: "length (replicate 9 ''\<newline>'') = 9" by simp
  have b: "\<forall>l \<in> set (replicate 9 ''\<newline>'' @ replicate n ''  draw()\<newline>'' @ ''}\<newline>'' # []).
             \<not> is_func_line l" for n
    by (auto simp add: sample_lines)
  have d: "\<forall>k. 1 \<le> k \<and> k \<le> length (replicate n ''  draw()\<newline>'') \<longrightarrow>
             0 < braces ''func render() {\<newline>''
                   + sum_list (map braces (take k (replicate n ''  draw()\<newline>'')))" for n
    by (simp add: sample_braces sum_list_replicate)
  have e: "braces ''func render() {\<newline>''
             + sum_list (map braces (replicate n ''  draw()\<newline>'')) + braces ''}\<newline>'' \<le> 0" for n
    by (simp add: sample_braces sum_list_replicate)
  from function_length_lines_10_to_75 [OF a b sample_lines(2) sample_braces(1) d e,
        of 64 "''a.swift''" "SwiftChecker []"]
    function_length_lines_10_to_75 [OF a b sample_lines(2) sample_braces(1) d e,
        of 58 "''a.swift''" "SwiftChecker []"]
  show ?thesis by (simp add: long_function_file_def SwiftChecker_def)
qed

lemma issues_SwiftChecker: "issues (SwiftChecker out) = []"
  by (simp add: SwiftChecker_def)

text \<open>
  Claim C3, as stated, fails: in \<open>nested_file\<close> the outer function is declared on line 1 with
  an opening brace and the nested one on line 2; the only issue is attributed to line 2
  and reports the 63 lines from there to the nested function's closing brace.
\<close>

theorem nested_declaration_counterexample:
  "is_func_line (nested_file ! 0) \<and> py_in ''{'' (nested_file ! 0)
   \<and> issues (check_function_length ''a.swift'' nested_file (SwiftChecker [])) =
       [\<lparr>file_path = ''a.swift'', line_num = 2, severity = ''warning'',
          rule = ''function_body_length'',
          message = ''Function body should be 60 lines or less: currently 63 lines''\<rparr>]"
proof -
  have first: "function_length_loop ''a.swift'' [''func outer() {\<newline>''] (SwiftChecker []) =
          (\<lparr>in_function = True, function_start = 1, brace_count = 1\<rparr>, SwiftChecker [])"
    by (simp add: function_length_loop_def function_length_step_decl sample_lines
          braces_def count_char_def)
  have rest: "\<forall>l \<in> set (replicate 61 ''    work()\<newline>'' @ ''  }\<newline>'' # [''}\<newline>'']).
                \<not> is_func_line l"
    by (auto simp add: sample_lines)
  have "open": "\<forall>k. 1 \<le> k \<and> k \<le> length (replicate 61 ''    work()\<newline>'') \<longrightarrow>
           0 < braces ''  func inner() {\<newline>''
                 + sum_list (map braces (take k (replicate 61 ''    work()\<newline>'')))"
    by (simp add: sample_braces sum_list_replicate)
  have close: "braces ''  func inner() {\<newline>''
                 + sum_list (map braces (replicate 61 ''    work()\<newline>''))
                 + braces ''  }\<newline>'' \<le> 0"
    by (simp add: sample_braces sum_list_replicate)
  note span = loop_span [OF sample_lines(6) sample_braces(5) rest "open" close,
      of "''a.swift''" "[''func outer() {\<newline>'']" "SwiftChecker []"]
  have "issues (check_function_length ''a.swift'' nested_file (SwiftChecker [])) =
       [\<lparr>file_path = ''a.swift'', line_num = 2, severity = ''warning'',
          rule = ''function_body_length'',
          message = ''Function body should be 60 lines or less: currently 63 lines''\<rparr>]"
    unfolding check_function_length_def nested_file_def span first
    by (simp add: function_length_message_63 issues_SwiftChecker)
  moreover have "is_func_line (nested_file ! 0)" "py_in ''{'' (nested_file ! 0)"
    by (simp_all add: nested_file_def sample_lines)
  ultimately show ?thesis by simp
qed

text \<open>
  Claim C3, amended. The loop keeps one span. A declaration line with an opening brace
  starts a span whatever the lines before it left open, so a nested declaration replaces
  the open span: when its braces balance, no span is open any more, and the issue, if any,
  is attributed to that most recent declaration line and counts the lines from it. A
  declaration line without an opening brace changes nothing; its braces are not counted.
\<close>

theorem nested_declaration_restarts_span:
  assumes "is_func_line decl" and "py_in ''{'' decl"
    and "\<forall>l \<in> set (body @ closing # post). \<not> is_func_line l"
    and "\<forall>k. 1 \<le> k \<and> k \<le> length body \<longrightarrow>
           0 < braces decl + sum_list (map braces (take k body))"
    and "braces decl + sum_list (map braces body) + braces closing \<le> 0"
  shows "function_length_step fp (i, decl) (s, c) =
           (\<lparr>in_function = True, function_start = i, brace_count = braces decl\<rparr>, c)
       \<and> \<not> in_function (fst (function_length_loop fp (pre @ decl # body @ closing # post) c))
       \<and> issues (check_function_length fp (pre @ decl # body @ closing # post) c) =
           issues (check_function_length fp pre c)
             @ (if int (length body) + 2 > 60
                then [\<lparr>file_path = fp, line_num = int (length pre) + 1, severity = ''warning'',
                        rule = ''function_body_length'',
                        message = function_length_message (int (length body) + 2)\<rparr>]
                else [])
       \<and> (is_func_line l \<and> \<not> py_in ''{'' l \<longrightarrow> function_length_step fp (i, l) (s, c) = (s, c))"
  unfolding check_function_length_def loop_span [OF assms, of fp pre c]
  using function_length_step_decl [OF assms(1,2)] function_length_step_skip
  by simp

theorem nested_declaration_restarts_span_witness:
  "in_function (fst (function_length_loop ''a.swift'' [''func outer() {\<newline>''] (SwiftChecker [])))
   \<and> \<not> in_function (fst (function_length_loop ''a.swift'' nested_file (SwiftChecker [])))
   \<and> map line_num (issues (check_function_length ''a.swift'' nested_file (SwiftChecker []))) = [2]
   \<and> function_length_step ''a.swift'' (2, ''  func multi(\<newline>'')
         (\<lparr>in_function = True, function_start = 1, brace_count = 1\<rparr>, SwiftChecker []) =
       (\<lparr>in_function = True, function_start = 1, brace_count = 1\<rparr>, SwiftChecker [])"
proof -
  have first: "function_length_loop ''a.swift'' [''func outer() {\<newline>''] (SwiftChecker []) =
          (\<lparr>in_function = True, function_start = 1, brace_count = 1\<rparr>, SwiftChecker [])"
    by (simp add: function_length_loop_def function_length_step_decl sample_lines
          braces_def count_char_def)
  have rest: "\<forall>l \<in> set (replicate 61 ''    work()\<newline>'' @ ''  }\<newline>'' # [''}\<newline>'']).
                \<not> is_func_line l"
    by (auto simp add: sample_lines)
  have "open": "\<forall>k. 1 \<le> k \<and> k \<le> length (replicate 61 ''    work()\<newline>'') \<longrightarrow>
           0 < braces ''  func inner() {\<newline>''
                 + sum_list (map braces (take k (replicate 61 ''    work()\<newline>'')))"
    by (simp add: sample_braces sum_list_replicate)
  have close: "braces ''  func inner() {\<newline>''
                 + sum_list (map braces (replicate 61 ''    work()\<newline>''))
                 + braces ''  }\<newline>'' \<le> 0"
    by (simp add: sample_braces sum_list_replicate)
  have multi: "is_func_line ''  func multi(\<newline>''" by code_simp
  have no_brace: "\<not> py_in ''{'' ''  func multi(\<newline>''" by simp
  from nested_declaration_restarts_span [OF sample_lines(6) sample_braces(5) rest "open" close,
      where fp = "''a.swift''" and pre = "[''func outer() {\<newline>'']" and c = "SwiftChecker []"
        and i = 2 and s = "\<lparr>in_function = True, function_start = 1, brace_count = 1\<rparr>"
        and l = "''  func multi(\<newline>''"]
    multi no_brace
  show ?thesis
    by (simp add: nested_file_def first check_function_length_def issues_SwiftChecker)
qed

text \<open>
  Claim C9. A declaration line with an opening brace opens a span and is never tested
  for closing it, also when its own braces balance; as the last line of a file it leaves
  the span open and adds no issue. A following line that is no declaration and leaves the
  depth at zero or below closes the span.
\<close>

theorem declaration_line_never_closes:
  assumes "is_func_line decl" and "py_in ''{'' decl"
  shows "function_length_step fp (i, decl) (s, c) =
           (\<lparr>in_function = True, function_start = i, brace_count = braces decl\<rparr>, c)
       \<and> function_length_loop fp (pre @ [decl]) c =
           (\<lparr>in_function = True, function_start = int (length pre) + 1,
              brace_count = braces decl\<rparr>,
            snd (function_length_loop fp pre c))
       \<and> check_function_length fp (pre @ [decl]) c = check_function_length fp pre c
       \<and> (\<not> is_func_line next_line \<and> braces decl + braces next_line \<le> 0 \<longrightarrow>
            \<not> in_function (fst (function_length_loop fp (pre @ [decl, next_line]) c)))"
proof -
  let ?f = "function_length_step fp"
  let ?open = "\<lparr>in_function = True, function_start = int (length pre) + 1,
              brace_count = braces decl\<rparr>"
  have step: "?f (j, decl) (t, d) =
           (\<lparr>in_function = True, function_start = j, brace_count = braces decl\<rparr>, d)" for j t d
    using assms by (rule function_length_step_decl)
  obtain s1 c1 where pre: "fold ?f (enumerate_from 1 pre) (no_span, c) = (s1, c1)"
    by (cases "fold ?f (enumerate_from 1 pre) (no_span, c)")
  have loop: "function_length_loop fp (pre @ [decl]) c =
           (?open, snd (function_length_loop fp pre c))"
    by (simp add: function_length_loop_def enumerate_from_append pre step add.commute)
  then have same: "check_function_length fp (pre @ [decl]) c = check_function_length fp pre c"
    by (simp add: check_function_length_def)
  have later: "\<not> in_function (fst (function_length_loop fp (pre @ [decl, next_line]) c))"
    if "\<not> is_func_line next_line" and "braces decl + braces next_line \<le> 0"
  proof -
    have "function_length_loop fp (pre @ [decl, next_line]) c =
            ?f (1 + int (length pre) + 1, next_line) (function_length_loop fp (pre @ [decl]) c)"
      by (simp add: function_length_loop_def enumerate_from_append)
    also have "\<dots> = ?f (1 + int (length pre) + 1, next_line) (?open, c1)"
      using loop pre by (simp add: function_length_loop_def)
    finally show ?thesis
      using function_length_step_close [of next_line ?open fp "1 + int (length pre) + 1" c1] that
      by simp
  qed
  from step loop same later show ?thesis by simp
qed

theorem declaration_line_never_closes_witness:
  "braces ''func f() { }'' = 0
   \<and> function_length_loop ''a.swift'' [''func f() { }''] (SwiftChecker []) =
       (\<lparr>in_function = True, function_start = 1, brace_count = 0\<rparr>, SwiftChecker [])
   \<and> issues (check_function_length ''a.swift'' [''func f() { }''] (SwiftChecker [])) = []
   \<and> \<not> in_function (fst (function_length_loop ''a.swift'' [''func f() { }'', ''\<newline>'']
                             (SwiftChecker [])))"
proof -
  have empty: "function_length_loop ''a.swift'' [] (SwiftChecker []) = (no_span, SwiftChecker [])"
    by (simp add: function_length_loop_def)
  have later: "\<not> is_func_line ''\<newline>''" "braces ''func f() { }'' + braces ''\<newline>'' \<le> 0"
    by (simp_all add: sample_lines sample_braces braces_def count_char_def)
  from declaration_line_never_closes [OF sample_lines(9) sample_braces(9),
      of "''a.swift''" 1 no_span "SwiftChecker []" "[]" "''\<newline>''"] later
  show ?thesis
    by (simp add: sample_braces empty check_function_length_def issues_SwiftChecker)
qed

section \<open>What the patterns accept\<close>

lemma after_Nil [simp]: "after q [] = q"
  by (simp add: after_def)

lemma after_Cons [simp]: "after q (c # u) = after (Some c) u"
  by (simp add: after_def)

lemma after_append [simp]: "after q (u @ v) = after (after q u) v"
  by (simp add: after_def)

lemma ends_Chr_iff:
  "y \<in> set (ends (Chr P) (q, s)) \<longleftrightarrow> (\<exists>c cs. s = c # cs \<and> P c \<and> y = (Some c, cs))"
  by (cases s) auto

lemma ends_Seq_iff:
  "y \<in> set (ends (Seq a b) x) \<longleftrightarrow> (\<exists>z \<in> set (ends a x). y \<in> set (ends b z))"
  by auto

lemma ends_Alt_iff:
  "y \<in> set (ends (Alt a b) x) \<longleftrightarrow> y \<in> set (ends a x) \<or> y \<in> set (ends b x)"
  by auto

lemma star_ends_Chr:
  "length s \<le> n \<Longrightarrow>
     y \<in> set (star_ends n (ends (Chr P)) (q, s)) \<longleftrightarrow>
       (\<exists>u v. s = u @ v \<and> list_all P u \<and> y = (after q u, v))"
proof (induction s arbitrary: n q)
  case Nil
  then show ?case by (cases n) auto
next
  case (Cons c cs)
  then obtain m where n: "n = Suc m" and m: "length cs \<le> m" by (cases n) auto
  have "y \<in> set (star_ends n (ends (Chr P)) (q, c # cs)) \<longleftrightarrow>
          y = (q, c # cs) \<or> (P c \<and> y \<in> set (star_ends m (ends (Chr P)) (Some c, cs)))"
    by (auto simp add: n)
  also have "\<dots> \<longleftrightarrow> y = (q, c # cs) \<or>
          (P c \<and> (\<exists>u v. cs = u @ v \<and> list_all P u \<and> y = (after (Some c) u, v)))"
    by (simp only: Cons.IH [OF m])
  also have "\<dots> \<longleftrightarrow> (\<exists>u v. c # cs = u @ v \<and> list_all P u \<and> y = (after q u, v))"
  proof
    assume "y = (q, c # cs) \<or>
          (P c \<and> (\<exists>u v. cs = u @ v \<and> list_all P u \<and> y = (after (Some c) u, v)))"
    then show "\<exists>u v. c # cs = u @ v \<and> list_all P u \<and> y = (after q u, v)"
    proof
      assume "y = (q, c # cs)"
      then have "c # cs = [] @ (c # cs) \<and> list_all P [] \<and> y = (after q [], c # cs)" by simp
      then show ?thesis by blast
    next
      assume "P c \<and> (\<exists>u v. cs = u @ v \<and> list_all P u \<and> y = (after (Some c) u, v))"
      then obtain u v where "P c" "cs = u @ v" "list_all P u" "y = (after (Some c) u, v)"
        by blast
      then have "c # cs = (c # u) @ v \<and> list_all P (c # u) \<and> y = (after q (c # u), v)"
        by simp
      then show ?thesis by blast
    qed
  next
    assume "\<exists>u v. c # cs = u @ v \<and> list_all P u \<and> y = (after q u, v)"
    then obtain u v where uv: "c # cs = u @ v" "list_all P u" "y = (after q u, v)" by blast
    show "y = (q, c # cs) \<or>
          (P c \<and> (\<exists>u v. cs = u @ v \<and> list_all P u \<and> y = (after (Some c) u, v)))"
    proof (cases u)
      case Nil
      with uv show ?thesis by simp
    next
      case (Cons d u')
      with uv have "d = c" "cs = u' @ v" "P c" "list_all P u'" "y = (after (Some c) u', v)"
        by simp_all
      then show ?thesis by blast
    qed
  qed
  finally show ?case .
qed

lemma ends_Star_Chr_iff:
  "y \<in> set (ends (Star (Chr P)) (q, s)) \<longleftrightarrow>
     (\<exists>u v. s = u @ v \<and> list_all P u \<and> y = (after q u, v))"
  by (simp add: star_ends_Chr)

lemma ends_Plus_Chr_iff:
  "y \<in> set (ends (Plus (Chr P)) (q, s)) \<longleftrightarrow>
     (\<exists>u v. s = u @ v \<and> u \<noteq> [] \<and> list_all P u \<and> y = (after q u, v))"
proof -
  have "y \<in> set (ends (Plus (Chr P)) (q, s)) \<longleftrightarrow>
          (\<exists>c cs. s = c # cs \<and> P c \<and> y \<in> set (ends (Star (Chr P)) (Some c, cs)))"
    unfolding Plus_def ends_Seq_iff by (cases s) auto
  also have "\<dots> \<longleftrightarrow> (\<exists>c cs. s = c # cs \<and> P c \<and>
          (\<exists>u v. cs = u @ v \<and> list_all P u \<and> y = (after (Some c) u, v)))"
    by (simp only: ends_Star_Chr_iff)
  also have "\<dots> \<longleftrightarrow> (\<exists>u v. s = u @ v \<and> u \<noteq> [] \<and> list_all P u \<and> y = (after q u, v))"
  proof
    assume "\<exists>c cs. s = c # cs \<and> P c \<and>
          (\<exists>u v. cs = u @ v \<and> list_all P u \<and> y = (after (Some c) u, v))"
    then obtain c u v where "s = c # u @ v" "P c" "list_all P u" "y = (after (Some c) u, v)"
      by blast
    then have "s = (c # u) @ v \<and> c # u \<noteq> [] \<and> list_all P (c # u) \<and> y = (after q (c # u), v)"
      by simp
    then show "\<exists>u v. s = u @ v \<and> u \<noteq> [] \<and> list_all P u \<and> y = (after q u, v)" by blast
  next
    assume "\<exists>u v. s = u @ v \<and> u \<noteq> [] \<and> list_all P u \<and> y = (after q u, v)"
    then obtain u v where uv: "s = u @ v" "u \<noteq> []" "list_all P u" "y = (after q u, v)" by blast
    then obtain c u' where "u = c # u'" by (cases u) auto
    with uv have "s = c # (u' @ v)" "P c" "u' @ v = u' @ v" "list_all P u'" "y = (after (Some c) u', v)"
      by simp_all
    then show "\<exists>c cs. s = c # cs \<and> P c \<and>
          (\<exists>u v. cs = u @ v \<and> list_all P u \<and> y = (after (Some c) u, v))" by blast
  qed
  finally show ?thesis .
qed

lemma ends_Lit_iff:
  "w \<noteq> [] \<Longrightarrow>
     y \<in> set (ends (Lit w) (q, s)) \<longleftrightarrow> (\<exists>v. s = w @ v \<and> y = (after q w, v))"
proof (induction w arbitrary: q s rule: Lit.induct)
  case 1
  then show ?case by simp
next
  case (2 c)
  show ?case by (cases s) auto
next
  case (3 c d ds)
  have "y \<in> set (ends (Lit (c # d # ds)) (q, s)) \<longleftrightarrow>
          (\<exists>cs. s = c # cs \<and> y \<in> set (ends (Lit (d # ds)) (Some c, cs)))"
    by (cases s) auto
  also have "\<dots> \<longleftrightarrow> (\<exists>cs. s = c # cs \<and> (\<exists>v. cs = (d # ds) @ v \<and> y = (after (Some c) (d # ds), v)))"
    using 3 by simp
  also have "\<dots> \<longleftrightarrow> (\<exists>v. s = (c # d # ds) @ v \<and> y = (after q (c # d # ds), v))"
    by auto
  finally show ?case .
qed

lemma search_from_iff:
  "search_from r q s \<longleftrightarrow> (\<exists>u v. s = u @ v \<and> ends r (after q u, v) \<noteq> [])"
proof (induction s arbitrary: q)
  case Nil
  show ?case by simp
next
  case (Cons c cs)
  show ?case
  proof
    assume "search_from r q (c # cs)"
    then have "ends r (q, c # cs) \<noteq> [] \<or> (\<exists>u v. cs = u @ v \<and> ends r (after (Some c) u, v) \<noteq> [])"
      using Cons.IH by simp
    then show "\<exists>u v. c # cs = u @ v \<and> ends r (after q u, v) \<noteq> []"
    proof
      assume "ends r (q, c # cs) \<noteq> []"
      then have "c # cs = [] @ (c # cs) \<and> ends r (after q [], c # cs) \<noteq> []" by simp
      then show ?thesis by blast
    next
      assume "\<exists>u v. cs = u @ v \<and> ends r (after (Some c) u, v) \<noteq> []"
      then obtain u v where "cs = u @ v" "ends r (after (Some c) u, v) \<noteq> []" by blast
      then have "c # cs = (c # u) @ v \<and> ends r (after q (c # u), v) \<noteq> []" by simp
      then show ?thesis by blast
    qed
  next
    assume "\<exists>u v. c # cs = u @ v \<and> ends r (after q u, v) \<noteq> []"
    then obtain u v where uv: "c # cs = u @ v" "ends r (after q u, v) \<noteq> []" by blast
    show "search_from r q (c # cs)"
    proof (cases u)
      case Nil
      with uv have "ends r (q, c # cs) \<noteq> []" by simp
      then show ?thesis by simp
    next
      case (Cons d u')
      with uv have "cs = u' @ v" "ends r (after (Some c) u', v) \<noteq> []" by simp_all
      then have "search_from r (Some c) cs" using Cons.IH by blast
      then show ?thesis by simp
    qed
  qed
qed

lemma py_in_iff: "py_in w s \<longleftrightarrow> (\<exists>pre post. s = pre @ w @ post)"
proof (induction s)
  case Nil
  show ?case by auto
next
  case (Cons c cs)
  show ?case
  proof
    assume "py_in w (c # cs)"
    then have "prefix w (c # cs) \<or> (\<exists>pre post. cs = pre @ w @ post)" using Cons.IH by simp
    then show "\<exists>pre post. c # cs = pre @ w @ post"
    proof
      assume "prefix w (c # cs)"
      then obtain post where "c # cs = [] @ w @ post" by (auto simp add: prefix_def)
      then show ?thesis by blast
    next
      assume "\<exists>pre post. cs = pre @ w @ post"
      then obtain pre post where "c # cs = (c # pre) @ w @ post" by auto
      then show ?thesis by blast
    qed
  next
    assume "\<exists>pre post. c # cs = pre @ w @ post"
    then obtain pre post where pp: "c # cs = pre @ w @ post" by blast
    show "py_in w (c # cs)"
    proof (cases pre)
      case Nil
      with pp have "prefix w (c # cs)" by (simp add: prefix_def)
      then show ?thesis by simp
    next
      case (Cons d pre')
      with pp have "cs = pre' @ w @ post" by simp
      then have "py_in w cs" using Cons.IH by blast
      then show ?thesis by simp
    qed
  qed
qed

lemma re_search_Lit:
  assumes "w \<noteq> []"
  shows "re_search (Lit w) s \<longleftrightarrow> (\<exists>pre post. s = pre @ w @ post)"
proof -
  have "ends (Lit w) (q, v) \<noteq> [] \<longleftrightarrow> (\<exists>post. v = w @ post)" for q v
  proof -
    have "ends (Lit w) (q, v) \<noteq> [] \<longleftrightarrow> (\<exists>y. y \<in> set (ends (Lit w) (q, v)))"
      by (cases "ends (Lit w) (q, v)") auto
    also have "\<dots> \<longleftrightarrow> (\<exists>post. v = w @ post)"
      by (simp add: ends_Lit_iff [OF assms])
    finally show ?thesis .
  qed
  then have "re_search (Lit w) s \<longleftrightarrow> (\<exists>u v. s = u @ v \<and> (\<exists>post. v = w @ post))"
    by (simp add: re_search_def search_from_iff)
  also have "\<dots> \<longleftrightarrow> (\<exists>pre post. s = pre @ w @ post)" by blast
  finally show ?thesis .
qed

lemma nonempty_iff: "xs \<noteq> [] \<longleftrightarrow> (\<exists>y. y \<in> set xs)"
  by (cases xs) auto

lemma accepts_Seq:
  "ends (Seq a b) x \<noteq> [] \<longleftrightarrow> (\<exists>z. z \<in> set (ends a x) \<and> ends b z \<noteq> [])"
  by (auto simp add: nonempty_iff)

lemma accepts_Eps: "ends Eps x \<noteq> []"
  by simp

lemma accepts_Seq_Seq:
  "ends (Seq (Seq a1 a2) b) x \<noteq> [] \<longleftrightarrow> ends (Seq a1 (Seq a2 b)) x \<noteq> []"
  by (auto simp add: nonempty_iff)

lemma accepts_Seq_Alt:
  "ends (Seq (Alt a1 a2) b) x \<noteq> [] \<longleftrightarrow> ends (Seq a1 b) x \<noteq> [] \<or> ends (Seq a2 b) x \<noteq> []"
  by (auto simp add: nonempty_iff)

lemma accepts_Seq_WordB:
  "ends (Seq WordB b) x \<noteq> [] \<longleftrightarrow> word_before x \<noteq> word_after x \<and> ends b x \<noteq> []"
  by (cases "word_before x = word_after x") simp_all

lemma accepts_Seq_Chr:
  "ends (Seq (Chr P) b) (q, s) \<noteq> [] \<longleftrightarrow> (\<exists>c v. s = c # v \<and> P c \<and> ends b (Some c, v) \<noteq> [])"
  unfolding accepts_Seq ends_Chr_iff by blast

lemma accepts_Seq_Star:
  "ends (Seq (Star (Chr P)) b) (q, s) \<noteq> [] \<longleftrightarrow>
     (\<exists>u v. s = u @ v \<and> list_all P u \<and> ends b (after q u, v) \<noteq> [])"
  unfolding accepts_Seq ends_Star_Chr_iff by blast

lemma accepts_Seq_Plus:
  "ends (Seq (Plus (Chr P)) b) (q, s) \<noteq> [] \<longleftrightarrow>
     (\<exists>u v. s = u @ v \<and> u \<noteq> [] \<and> list_all P u \<and> ends b (after q u, v) \<noteq> [])"
  unfolding accepts_Seq ends_Plus_Chr_iff by blast

lemma accepts_Seq_Lit:
  "w \<noteq> [] \<Longrightarrow>
     ends (Seq (Lit w) b) (q, s) \<noteq> [] \<longleftrightarrow> (\<exists>v. s = w @ v \<and> ends b (after q w, v) \<noteq> [])"
  unfolding accepts_Seq by (simp add: ends_Lit_iff)

lemma accepts_Seq_Lit_Cons:
  "ends (Seq (Lit (c # cs)) b) (q, s) \<noteq> [] \<longleftrightarrow>
     (\<exists>v. s = (c # cs) @ v \<and> ends b (after q (c # cs), v) \<noteq> [])"
  by (rule accepts_Seq_Lit) simp

lemma accepts_force_unwrap_re:
  "ends force_unwrap_re (q, s) \<noteq> [] \<longleftrightarrow>
     (\<exists>a sp1 sp2 b rest. s = a # sp1 @ ''!'' @ sp2 @ b # rest
        \<and> a \<notin> set ''!=<>'' \<and> list_all isspace sp1 \<and> list_all isspace sp2 \<and> b \<noteq> CHR ''='')"
proof -
  have "ends force_unwrap_re (q, s) \<noteq> [] \<longleftrightarrow>
     (\<exists>a v1. s = a # v1 \<and> a \<notin> set ''!=<>'' \<and>
       (\<exists>sp1 v2. v1 = sp1 @ v2 \<and> list_all isspace sp1 \<and>
         (\<exists>v3. v2 = ''!'' @ v3 \<and>
           (\<exists>sp2 v4. v3 = sp2 @ v4 \<and> list_all isspace sp2 \<and>
             (\<exists>b rest. v4 = b # rest \<and> b \<noteq> CHR ''='')))))"
    by (simp only: force_unwrap_re_def Seqs_def none_of_def ws_def foldr.simps o_apply id_apply Lit.simps
          accepts_Seq_Chr accepts_Seq_Star accepts_Eps) auto
  also have "\<dots> \<longleftrightarrow> (\<exists>a sp1 sp2 b rest. s = a # sp1 @ ''!'' @ sp2 @ b # rest
        \<and> a \<notin> set ''!=<>'' \<and> list_all isspace sp1 \<and> list_all isspace sp2 \<and> b \<noteq> CHR ''='')"
    by blast
  finally show ?thesis .
qed

lemma word_before_after: "word_before (after None u, v) \<longleftrightarrow> u \<noteq> [] \<and> isword (last u)"
  by (simp add: after_def)

lemma isword_letters: "isword CHR ''l''" "isword CHR ''v''" "isword CHR ''c''"
  "isword CHR ''s''" "isword CHR ''e''" "isword CHR ''p''"
  by (simp_all add: isword_def in_range_def ord_def)

lemma accepts_variable_re:
  "ends variable_re (q, s) \<noteq> [] \<longleftrightarrow>
     (\<exists>kw sp1 U name sp2 post. s = kw @ sp1 @ U # name @ sp2 @ ''='' @ post
        \<and> (kw = ''let'' \<or> kw = ''var'') \<and> \<not> word_before (q, s)
        \<and> sp1 \<noteq> [] \<and> list_all isspace sp1 \<and> upper U \<and> list_all alnum name
        \<and> list_all isspace sp2)"
proof -
  have tail: "ends (Seq (Plus (Chr isspace)) (Seq (Seq (Chr upper) (Star (Chr alnum)))
                 (Seq (Star (Chr isspace)) (Seq (Lit ''='') Eps)))) (q', v) \<noteq> [] \<longleftrightarrow>
     (\<exists>sp1 U name sp2 post. v = sp1 @ U # name @ sp2 @ ''='' @ post
        \<and> sp1 \<noteq> [] \<and> list_all isspace sp1 \<and> upper U \<and> list_all alnum name
        \<and> list_all isspace sp2)" (is "?L \<longleftrightarrow> ?R") for q' v
  proof -
    have "?L \<longleftrightarrow> (\<exists>sp1 v1. v = sp1 @ v1 \<and> sp1 \<noteq> [] \<and> list_all isspace sp1 \<and>
             (\<exists>U v2. v1 = U # v2 \<and> upper U \<and>
               (\<exists>name v3. v2 = name @ v3 \<and> list_all alnum name \<and>
                 (\<exists>sp2 v4. v3 = sp2 @ v4 \<and> list_all isspace sp2 \<and>
                   (\<exists>post. v4 = ''='' @ post)))))"
      by (simp only: accepts_Seq_Plus accepts_Seq_Seq accepts_Seq_Chr
            accepts_Seq_Star accepts_Seq_Lit_Cons accepts_Eps) auto
    also have "\<dots> \<longleftrightarrow> ?R" by blast
    finally show ?thesis .
  qed
  let ?shape = "\<lambda>kw sp1 U name sp2 post. s = kw @ sp1 @ U # name @ sp2 @ ''='' @ post
        \<and> (kw = ''let'' \<or> kw = ''var'')
        \<and> sp1 \<noteq> [] \<and> list_all isspace sp1 \<and> upper U \<and> list_all alnum name
        \<and> list_all isspace sp2"
  have wa: "word_after (q, s)" if "?shape kw sp1 U name sp2 post" for kw sp1 U name sp2 post
    using that by (auto simp add: isword_letters)
  have "ends variable_re (q, s) \<noteq> [] \<longleftrightarrow>
          word_before (q, s) \<noteq> word_after (q, s) \<and>
          (\<exists>kw v. s = kw @ v \<and> (kw = ''let'' \<or> kw = ''var'') \<and>
             (\<exists>sp1 U name sp2 post. v = sp1 @ U # name @ sp2 @ ''='' @ post
                \<and> sp1 \<noteq> [] \<and> list_all isspace sp1 \<and> upper U \<and> list_all alnum name
                \<and> list_all isspace sp2))"
    unfolding variable_re_def Seqs_def ws_def foldr.simps o_apply id_apply
      accepts_Seq_WordB accepts_Seq_Alt
    by (simp only: accepts_Seq_Lit_Cons tail) blast
  also have "\<dots> \<longleftrightarrow> word_before (q, s) \<noteq> word_after (q, s) \<and>
          (\<exists>kw sp1 U name sp2 post. ?shape kw sp1 U name sp2 post)"
    by blast
  also have "\<dots> \<longleftrightarrow> (\<exists>kw sp1 U name sp2 post. ?shape kw sp1 U name sp2 post)
          \<and> \<not> word_before (q, s)"
    using wa by blast
  also have "\<dots> \<longleftrightarrow> (\<exists>kw sp1 U name sp2 post. s = kw @ sp1 @ U # name @ sp2 @ ''='' @ post
        \<and> (kw = ''let'' \<or> kw = ''var'') \<and> \<not> word_before (q, s)
        \<and> sp1 \<noteq> [] \<and> list_all isspace sp1 \<and> upper U \<and> list_all alnum name
        \<and> list_all isspace sp2)"
    by blast
  finally show ?thesis .
qed

lemma accepts_type_re:
  "ends type_re (q, s) \<noteq> [] \<longleftrightarrow>
     (\<exists>kw sp l rest. s = kw @ sp @ l # rest
        \<and> (kw = ''class'' \<or> kw = ''struct'' \<or> kw = ''enum'' \<or> kw = ''protocol'')
        \<and> \<not> word_before (q, s) \<and> sp \<noteq> [] \<and> list_all isspace sp \<and> lower l)"
proof -
  have tail: "ends (Seq (Plus (Chr isspace)) (Seq (Seq (Chr lower) (Star (Chr alnum))) Eps))
                (q', v) \<noteq> [] \<longleftrightarrow>
     (\<exists>sp l rest. v = sp @ l # rest \<and> sp \<noteq> [] \<and> list_all isspace sp \<and> lower l)"
    (is "?L \<longleftrightarrow> ?R") for q' v
  proof -
    have "?L \<longleftrightarrow> (\<exists>sp v1. v = sp @ v1 \<and> sp \<noteq> [] \<and> list_all isspace sp \<and>
             (\<exists>l v2. v1 = l # v2 \<and> lower l \<and>
               (\<exists>name v3. v2 = name @ v3 \<and> list_all alnum name)))"
      by (simp only: accepts_Seq_Plus accepts_Seq_Seq accepts_Seq_Chr
            accepts_Seq_Star accepts_Eps) auto
    also have "\<dots> \<longleftrightarrow> (\<exists>sp v1. v = sp @ v1 \<and> sp \<noteq> [] \<and> list_all isspace sp \<and>
             (\<exists>l v2. v1 = l # v2 \<and> lower l))"
    proof -
      have "\<exists>name v3. v2 = name @ v3 \<and> list_all alnum name" for v2 :: string
        by (intro exI [of _ "[]"] exI [of _ v2]) simp
      then show ?thesis by simp
    qed
    also have "\<dots> \<longleftrightarrow> ?R" by blast
    finally show ?thesis .
  qed
  let ?shape = "\<lambda>kw sp l rest. s = kw @ sp @ l # rest
        \<and> (kw = ''class'' \<or> kw = ''struct'' \<or> kw = ''enum'' \<or> kw = ''protocol'')
        \<and> sp \<noteq> [] \<and> list_all isspace sp \<and> lower l"
  have wa: "word_after (q, s)" if "?shape kw sp l rest" for kw sp l rest
    using that by (auto simp add: isword_letters)
  have "ends type_re (q, s) \<noteq> [] \<longleftrightarrow>
          word_before (q, s) \<noteq> word_after (q, s) \<and>
          (\<exists>kw v. s = kw @ v
             \<and> (kw = ''class'' \<or> kw = ''struct'' \<or> kw = ''enum'' \<or> kw = ''protocol'') \<and>
             (\<exists>sp l rest. v = sp @ l # rest \<and> sp \<noteq> [] \<and> list_all isspace sp \<and> lower l))"
    unfolding type_re_def Seqs_def Alts_def ws_def foldr.simps foldl.simps o_apply id_apply
      accepts_Seq_WordB accepts_Seq_Alt
    by (simp only: accepts_Seq_Lit_Cons tail) blast
  also have "\<dots> \<longleftrightarrow> word_before (q, s) \<noteq> word_after (q, s) \<and>
          (\<exists>kw sp l rest. ?shape kw sp l rest)"
    by blast
  also have "\<dots> \<longleftrightarrow> (\<exists>kw sp l rest. ?shape kw sp l rest) \<and> \<not> word_before (q, s)"
    using wa by blast
  also have "\<dots> \<longleftrightarrow> (\<exists>kw sp l rest. s = kw @ sp @ l # rest
        \<and> (kw = ''class'' \<or> kw = ''struct'' \<or> kw = ''enum'' \<or> kw = ''protocol'')
        \<and> \<not> word_before (q, s) \<and> sp \<noteq> [] \<and> list_all isspace sp \<and> lower l)"
    by blast
  finally show ?thesis .
qed

lemma word_before_None [simp]: "word_before (after None pre, v) \<longleftrightarrow> \<not> (pre = [] \<or> \<not> isword (last pre))"
  by (simp add: after_def)

lemma re_search_variable_re: "re_search variable_re line = uppercase_binding_with_equals line"
proof -
  have "re_search variable_re line \<longleftrightarrow>
     (\<exists>pre v. line = pre @ v \<and>
        (\<exists>kw sp1 U name sp2 post. v = kw @ sp1 @ U # name @ sp2 @ ''='' @ post
        \<and> (kw = ''let'' \<or> kw = ''var'') \<and> (pre = [] \<or> \<not> isword (last pre))
        \<and> sp1 \<noteq> [] \<and> list_all isspace sp1 \<and> upper U \<and> list_all alnum name
        \<and> list_all isspace sp2))"
    by (simp only: re_search_def search_from_iff accepts_variable_re word_before_None not_not)
  also have "\<dots> \<longleftrightarrow> uppercase_binding_with_equals line"
    unfolding uppercase_binding_with_equals_def by blast
  finally show ?thesis by simp
qed

lemma re_search_type_re: "re_search type_re line = lowercase_type_declaration line"
proof -
  have "re_search type_re line \<longleftrightarrow>
     (\<exists>pre v. line = pre @ v \<and>
        (\<exists>kw sp l rest. v = kw @ sp @ l # rest
        \<and> (kw = ''class'' \<or> kw = ''struct'' \<or> kw = ''enum'' \<or> kw = ''protocol'')
        \<and> (pre = [] \<or> \<not> isword (last pre))
        \<and> sp \<noteq> [] \<and> list_all isspace sp \<and> lower l))"
    by (simp only: re_search_def search_from_iff accepts_type_re word_before_None not_not)
  also have "\<dots> \<longleftrightarrow> lowercase_type_declaration line"
    unfolding lowercase_type_declaration_def by blast
  finally show ?thesis by simp
qed

section \<open>Exceptions and interruption\<close>

lemma issues_fold:
  assumes "\<And>x c. issues (f x c) = issues c @ g x"
  shows "issues (fold f xs c) = issues c @ concat (map g xs)"
  by (induction xs arbitrary: c) (simp_all add: assms)







lemma check_file_raises:
  assumes "check_file w fp c = Inl (e, c')"
  shows "e = KeyboardInterrupt"
  using assms
  by (cases e) (auto simp add: check_file_def split: sum.splits prod.splits if_splits)

lemma check_file_interrupted:
  assumes "readlines w fp = Inl KeyboardInterrupt"
  shows "check_file w fp c = Inl (KeyboardInterrupt, c)"
  using assms by (simp add: check_file_def)

lemma try_each_interrupted:
  assumes "fp \<in> set files" and "readlines w fp = Inl KeyboardInterrupt"
  shows "\<exists>c'. try_each (check_file w) files c = Inl (KeyboardInterrupt, c')"
  using assms(1)
proof (induction files arbitrary: c)
  case Nil
  then show ?case by simp
next
  case (Cons f files)
  show ?case
  proof (cases "check_file w f c")
    case (Inl ec)
    obtain e c' where "ec = (e, c')" by (cases ec)
    with Inl check_file_raises [of w f c e c'] show ?thesis by simp
  next
    case (Inr c1)
    with check_file_interrupted [OF assms(2), of c] have "f \<noteq> fp" by auto
    with Cons.prems have "fp \<in> set files" by simp
    from Cons.IH [OF this, of c1] Inr show ?thesis by simp
  qed
qed

text \<open>
  Claim C8, amended. The program has no handler for an interruption: \<open>check_file\<close> catches
  \<open>Exception\<close> only, so a \<open>KeyboardInterrupt\<close> raised while a file is read leaves
  \<open>check_file\<close>, \<open>check_directory\<close> and \<open>main\<close> uncaught. The process does not end through
  \<open>sys.exit\<close>, and what it has printed is progress lines only: no notice and no summary.
\<close>

theorem interrupt_propagates:
  assumes "2 \<le> length argv" and "isdir w (argv ! 1)"
    and "fp \<in> set (glob_swift w (argv ! 1))" and "readlines w fp = Inl KeyboardInterrupt"
  shows "fst (main w argv) = Uncaught KeyboardInterrupt
       \<and> list_all progress_line (snd (main w argv))"
proof -
  let ?d = "argv ! 1"
  have files: "glob_swift w ?d \<noteq> []" using assms(3) by auto
  obtain c' where c': "try_each (check_file w) (glob_swift w ?d)
      (print (Found_files (int (length (glob_swift w ?d)))) (SwiftChecker [])) =
        Inl (KeyboardInterrupt, c')"
    using try_each_interrupted [OF assms(3,4)] by blast
  then have dir: "check_directory w ?d (SwiftChecker []) = Inl (KeyboardInterrupt, c')"
    using files by (simp add: check_directory_def Let_def)
  have "run_steps (SwiftChecker []) (final (check_directory w ?d (SwiftChecker [])))"
    by (rule run_steps_check_directory)
  then have "run_steps (SwiftChecker []) c'" using dir by simp
  from run_steps_console [OF this] have "list_all progress_line (console c')"
    by (auto simp add: SwiftChecker_def)
  then show ?thesis using assms(1,2) dir by (simp add: main_def Let_def)
qed

theorem interrupt_propagates_witness:
  "fst (main interrupted_world [''swift-check.py'', ''src'']) = Uncaught KeyboardInterrupt
   \<and> list_all progress_line (snd (main interrupted_world [''swift-check.py'', ''src'']))"
proof -
  have a: "2 \<le> length [''swift-check.py'', ''src'']" by simp
  have b: "isdir interrupted_world ([''swift-check.py'', ''src''] ! 1)"
    by (simp add: interrupted_world_def)
  have c: "''src/a.swift'' \<in> set (glob_swift interrupted_world ([''swift-check.py'', ''src''] ! 1))"
    by (simp add: interrupted_world_def)
  have d: "readlines interrupted_world ''src/a.swift'' = Inl KeyboardInterrupt"
    by (simp add: interrupted_world_def)
  from interrupt_propagates [OF a b c d] show ?thesis .
qed

text \<open>
  Claim C8, as stated, fails: with the read of the only file interrupted, \<open>main\<close> ends with
  the uncaught \<open>KeyboardInterrupt\<close>, not with exit code 0, after printing the file count
  and nothing else.
\<close>

theorem interrupt_counterexample:
  "main interrupted_world [''swift-check.py'', ''src''] =
     (Uncaught KeyboardInterrupt, [Found_files 1])"
  by code_simp

section \<open>The to-do, naming and forced-unwrap rules\<close>

lemma py_in_todo: "py_in ''// TODO'' line = has_todo_marker line"
  by (simp only: py_in_iff has_todo_marker_def)

lemma re_search_todo_colon: "re_search todo_colon_re line = todo_marker_with_colon line"
proof -
  have "re_search (Lit ''// TODO:'') line \<longleftrightarrow> (\<exists>pre post. line = pre @ ''// TODO:'' @ post)"
    by (rule re_search_Lit) simp
  then show ?thesis by (simp add: todo_colon_re_def todo_marker_with_colon_def)
qed

lemma todo_format_step_issues:
  "issues (todo_format_step fp (i, line) c) =
     issues c @ (if has_todo_marker line \<and> \<not> todo_marker_with_colon line
                 then [todo_format_issue fp i] else [])"
  by (simp add: todo_format_step_def py_in_todo re_search_todo_colon todo_format_issue_def)

text \<open>
  Claim C5. For a line that contains the to-do marker, the rule logs nothing if the marker
  is immediately followed by a colon somewhere in the line and exactly one \<open>todo_format\<close>
  warning otherwise; over a file it logs these issues line by line, in order.
\<close>

theorem todo_format_needs_colon:
  "(has_todo_marker line \<longrightarrow>
      issues (todo_format_step fp (i, line) c) =
        issues c @ (if todo_marker_with_colon line then [] else [todo_format_issue fp i]))
   \<and> issues (check_todo_format fp lines c) =
       issues c @ concat (map (\<lambda>(i, line).
          if has_todo_marker line \<and> \<not> todo_marker_with_colon line
          then [todo_format_issue fp i] else []) (enumerate_from 1 lines))"
proof -
  have "issues (fold (todo_format_step fp) xs c) =
          issues c @ concat (map (\<lambda>(i, line).
            if has_todo_marker line \<and> \<not> todo_marker_with_colon line
            then [todo_format_issue fp i] else []) xs)" for xs
    by (rule issues_fold) (simp add: todo_format_step_issues split: prod.split)
  then show ?thesis by (simp add: check_todo_format_def todo_format_step_issues)
qed

theorem todo_format_needs_colon_witness:
  "has_todo_marker ''// TODO: fix this'' \<and> has_todo_marker ''// TODO fix this''
   \<and> issues (todo_format_step ''a.swift'' (1, ''// TODO: fix this'') (SwiftChecker [])) = []
   \<and> issues (todo_format_step ''a.swift'' (2, ''// TODO fix this'') (SwiftChecker [])) =
       [\<lparr>file_path = ''a.swift'', line_num = 2, severity = ''warning'', rule = ''todo_format'',
         message = ''TODO comments should include context: // TODO: Description''\<rparr>]"
proof -
  have a: "has_todo_marker ''// TODO: fix this''" "has_todo_marker ''// TODO fix this''"
    unfolding py_in_todo [symmetric] by simp_all
  have b: "todo_marker_with_colon ''// TODO: fix this''"
    "\<not> todo_marker_with_colon ''// TODO fix this''"
    unfolding re_search_todo_colon [symmetric] by code_simp+
  from todo_format_needs_colon [of "''// TODO: fix this''" "''a.swift''" 1 "SwiftChecker []" "[]"]
    todo_format_needs_colon [of "''// TODO fix this''" "''a.swift''" 2 "SwiftChecker []" "[]"]
    a b
  show ?thesis by (simp add: issues_SwiftChecker todo_format_issue_def)
qed

lemma naming_conventions_step_issues:
  "issues (naming_conventions_step fp (i, line) c) =
     issues c @ (if uppercase_binding_with_equals line then [variable_name_issue fp i] else [])
       @ (if lowercase_type_declaration line then [type_name_issue fp i] else [])"
  by (simp add: naming_conventions_step_def Let_def re_search_variable_re re_search_type_re
        variable_name_issue_def type_name_issue_def)

lemma binding_has_equals:
  assumes "uppercase_binding_with_equals line"
  shows "CHR ''='' \<in> set line"
  using assms unfolding uppercase_binding_with_equals_def by auto

lemma type_without_trailing_token:
  assumes "kw = ''class'' \<or> kw = ''struct'' \<or> kw = ''enum'' \<or> kw = ''protocol''"
    and "lower l"
  shows "lowercase_type_declaration (kw @ '' '' @ [l])"
proof -
  have "kw @ '' '' @ [l] = [] @ kw @ '' '' @ l # []" by simp
  moreover have "list_all isspace '' ''" by (simp add: isspace_def ord_def)
  ultimately show ?thesis
    unfolding lowercase_type_declaration_def using assms
    by (intro exI [of _ "[]"] exI [of _ kw] exI [of _ "'' ''"] exI [of _ l]) simp
qed

text \<open>
  Claim C10. The naming rule logs a \<open>variable_name\<close> issue exactly for a line in which
  \<open>let\<close> or \<open>var\<close>, whitespace and a name with an uppercase initial are followed, after
  optional whitespace, by \<open>=\<close>; a line without \<open>=\<close> never gets one. It logs a \<open>type_name\<close>
  issue exactly for a line with a type keyword, whitespace and a lowercase letter, whatever
  follows: the lowercase initial may be the last character of the line.
\<close>

theorem naming_checks_fire:
  "issues (naming_conventions_step fp (i, line) c) =
     issues c @ (if uppercase_binding_with_equals line then [variable_name_issue fp i] else [])
       @ (if lowercase_type_declaration line then [type_name_issue fp i] else [])
   \<and> (CHR ''='' \<notin> set line \<longrightarrow> \<not> uppercase_binding_with_equals line)
   \<and> ((kw = ''class'' \<or> kw = ''struct'' \<or> kw = ''enum'' \<or> kw = ''protocol'') \<and> lower l \<longrightarrow>
        lowercase_type_declaration (kw @ '' '' @ [l]))"
  using naming_conventions_step_issues binding_has_equals type_without_trailing_token
  by blast

theorem naming_checks_fire_witness:
  "issues (naming_conventions_step ''a.swift'' (1, ''let Foo: Int'') (SwiftChecker [])) = []
   \<and> issues (naming_conventions_step ''a.swift'' (2, ''let Foo = 5'') (SwiftChecker [])) =
       [variable_name_issue ''a.swift'' 2]
   \<and> issues (naming_conventions_step ''a.swift'' (3, ''struct c'') (SwiftChecker [])) =
       [type_name_issue ''a.swift'' 3]"
proof -
  have a: "CHR ''='' \<notin> set ''let Foo: Int''" by simp
  have b: "\<not> lowercase_type_declaration ''let Foo: Int''"
    "uppercase_binding_with_equals ''let Foo = 5''"
    "\<not> lowercase_type_declaration ''let Foo = 5''"
    "\<not> uppercase_binding_with_equals ''struct c''"
    unfolding re_search_variable_re [symmetric] re_search_type_re [symmetric] by code_simp+
  have c: "''struct'' = ''class'' \<or> ''struct'' = ''struct'' \<or> ''struct'' = ''enum''
             \<or> ''struct'' = ''protocol''" "lower CHR ''c''"
    by (simp_all add: lower_def in_range_def ord_def)
  from naming_checks_fire [of "''a.swift''" 1 "''let Foo: Int''" "SwiftChecker []" "''struct''" "CHR ''c''"]
    naming_checks_fire [of "''a.swift''" 2 "''let Foo = 5''" "SwiftChecker []" "''struct''" "CHR ''c''"]
    naming_checks_fire [of "''a.swift''" 3 "''struct c''" "SwiftChecker []" "''struct''" "CHR ''c''"]
    a b c
  show ?thesis by (simp add: issues_SwiftChecker)
qed

lemma space_not_operator: "isspace c \<Longrightarrow> c \<notin> set ''!=<>'' \<and> c \<noteq> CHR ''=''"
  by (auto simp add: isspace_def ord_def)

lemma re_search_force_unwrap_re:
  "re_search force_unwrap_re code_part \<longleftrightarrow>
     (\<exists>u a b v. code_part = u @ a # CHR ''!'' # b # v \<and> a \<notin> set ''!=<>'' \<and> b \<noteq> CHR ''='')"
proof
  assume "re_search force_unwrap_re code_part"
  then obtain u a sp1 sp2 b rest where s: "code_part = u @ a # sp1 @ ''!'' @ sp2 @ b # rest"
    and a: "a \<notin> set ''!=<>''" and sp: "list_all isspace sp1" "list_all isspace sp2"
    and b: "b \<noteq> CHR ''=''"
    unfolding re_search_def search_from_iff accepts_force_unwrap_re by blast
  obtain u' a' where left: "u @ a # sp1 = u' @ [a']" "a' \<notin> set ''!=<>''"
  proof (cases sp1 rule: rev_cases)
    case Nil
    with a that [of u a] show ?thesis by simp
  next
    case (snoc ys y)
    with sp(1) have "isspace y" by simp
    then have "y \<notin> set ''!=<>''" using space_not_operator by blast
    with snoc that [of "u @ a # ys" y] show ?thesis by simp
  qed
  obtain b' v' where right: "sp2 @ b # rest = b' # v'" "b' \<noteq> CHR ''=''"
  proof (cases sp2)
    case Nil
    with b that [of b rest] show ?thesis by simp
  next
    case (Cons y ys)
    with sp(2) have "isspace y" by simp
    then have "y \<noteq> CHR ''=''" using space_not_operator by blast
    with Cons that [of y "ys @ b # rest"] show ?thesis by simp
  qed
  have "code_part = (u @ a # sp1) @ ''!'' @ (sp2 @ b # rest)" using s by simp
  then have "code_part = u' @ a' # CHR ''!'' # b' # v'" by (simp only: left right) simp
  with left(2) right(2)
  show "\<exists>u a b v. code_part = u @ a # CHR ''!'' # b # v \<and> a \<notin> set ''!=<>'' \<and> b \<noteq> CHR ''=''"
    by blast
next
  assume "\<exists>u a b v. code_part = u @ a # CHR ''!'' # b # v \<and> a \<notin> set ''!=<>'' \<and> b \<noteq> CHR ''=''"
  then obtain u a b v where "code_part = u @ a # [] @ ''!'' @ [] @ b # v"
    "a \<notin> set ''!=<>''" "list_all isspace []" "list_all isspace []" "b \<noteq> CHR ''=''"
    by auto
  then show "re_search force_unwrap_re code_part"
    unfolding re_search_def search_from_iff accepts_force_unwrap_re by blast
qed

text \<open>
  Claim C4. The pattern asks for a character before and a character after the \<open>!\<close>, so
  a \<open>!\<close> that ends or begins the code portion is not found: the last line of a file without
  a final newline, a line whose comment follows the \<open>!\<close> directly, and a line that begins
  with \<open>!\<close> get no warning, although each has a \<open>!\<close> that is not preceded by \<open>!\<close>, \<open>=\<close>,
  \<open><\<close> or \<open>>\<close> and not followed by \<open>=\<close>. The first of these lines with its newline is
  reported.
\<close>

theorem force_unwrap_at_line_end_missed:
  "code_part_of ''let y = x!'' = Inr ''let y = x!''
   \<and> claimed_force_unwrap ''let y = x!''
   \<and> check_force_unwrapping ''a.swift'' [''let y = x!''] (SwiftChecker []) = Inr (SwiftChecker [])
   \<and> code_part_of ''let y = x!// sure\<newline>'' = Inr ''let y = x!''
   \<and> check_force_unwrapping ''a.swift'' [''let y = x!// sure\<newline>''] (SwiftChecker []) =
       Inr (SwiftChecker [])
   \<and> claimed_force_unwrap ''!done\<newline>''
   \<and> check_force_unwrapping ''a.swift'' [''!done\<newline>''] (SwiftChecker []) = Inr (SwiftChecker [])
   \<and> map rule (issues (final (check_force_unwrapping ''a.swift'' [''let y = x!\<newline>'']
                                (SwiftChecker [])))) = [''force_unwrapping'']"
  by code_simp

end
